theory Spec2Isabelle
  imports Complex_Main
begin

section \<open>Single-precision arithmetic\<close>

text \<open>
  Every number of \<^verbatim>\<open>main.cu\<close> is a C \<^verbatim>\<open>float\<close>. A finite \<^verbatim>\<open>float\<close> is modelled by the real
  number it denotes, and every arithmetic operation of the source by the exact operation
  followed by a rounding function \<open>rnd\<close>, which all definitions below take as their first
  argument. Two roundings are of interest:
  \<^item> \<open>exact\<close>: no rounding at all, the reading under which the decimal constants of the
    source mean what they say;
  \<^item> \<open>round32\<close>: IEEE 754 binary32, round to nearest, ties to even, with gradual underflow,
    one rounding for each operation of the source text.
  A theorem stated for an arbitrary \<open>rnd\<close> holds for both, and for any other way of
  rounding. A compiler that fuses a multiplication and an addition rounds once where the
  source text rounds twice: the binary32 examples of the kernel below use operands for which
  that makes no difference, and the decay bounds of the last section only use that one
  rounding errs by at most \<open>eps32 |v| + eta32\<close>.

  Infinities and NaN are outside the model: every quantity of the program is bounded by
  the clamp and by normalisation, so no operation overflows, and the one operation that
  can produce them, the division by a zero norm, is modelled as the failure of
  \<^verbatim>\<open>quat_norm\<close>. \<^verbatim>\<open>fminf\<close> and \<^verbatim>\<open>fmaxf\<close> return one of their arguments and do not round.
\<close>

type_synonym rounding = "real \<Rightarrow> real"

definition exact :: rounding where
  "exact v = v"

definition rne :: "real \<Rightarrow> int" where
  \<comment> \<open>nearest integer, ties to the even one\<close>
  "rne r = (let f = \<lfloor>r\<rfloor>; d = r - of_int f
            in if d < 1/2 then f else if 1/2 < d then f + 1
               else if even f then f else f + 1)"

definition ulp_exp :: "real \<Rightarrow> int" where
  \<comment> \<open>exponent of the unit in the last place: 24 significant bits, least exponent -149\<close>
  "ulp_exp v = max (\<lfloor>log 2 \<bar>v\<bar>\<rfloor> - 23) (- 149)"

definition round32 :: rounding where
  "round32 v = (if v = 0 then 0
                else of_int (rne (v / 2 powi ulp_exp v)) * 2 powi ulp_exp v)"

definition fadd :: "rounding \<Rightarrow> real \<Rightarrow> real \<Rightarrow> real" where
  "fadd rnd a b = rnd (a + b)"

definition fsub :: "rounding \<Rightarrow> real \<Rightarrow> real \<Rightarrow> real" where
  "fsub rnd a b = rnd (a - b)"

definition fmul :: "rounding \<Rightarrow> real \<Rightarrow> real \<Rightarrow> real" where
  "fmul rnd a b = rnd (a * b)"

definition fdiv :: "rounding \<Rightarrow> real \<Rightarrow> real \<Rightarrow> real" where
  \<comment> \<open>used with a nonzero divisor only\<close>
  "fdiv rnd a b = rnd (a / b)"

definition fsqrt :: "rounding \<Rightarrow> real \<Rightarrow> real" where
  "fsqrt rnd a = rnd (sqrt a)"

definition fminf :: "real \<Rightarrow> real \<Rightarrow> real" where
  "fminf a b = min a b"

definition fmaxf :: "real \<Rightarrow> real \<Rightarrow> real" where
  "fmaxf a b = max a b"

section \<open>The coupling kernel\<close>

record float3 =
  x :: real
  y :: real
  z :: real

record SphereGPU =
  omega :: float3

definition make_float3 :: "real \<Rightarrow> real \<Rightarrow> real \<Rightarrow> float3" where
  "make_float3 u v t = \<lparr>x = u, y = v, z = t\<rparr>"

definition crossf :: "rounding \<Rightarrow> float3 \<Rightarrow> float3 \<Rightarrow> float3" where
  "crossf rnd a b = make_float3
     (fsub rnd (fmul rnd (y a) (z b)) (fmul rnd (z a) (y b)))
     (fsub rnd (fmul rnd (z a) (x b)) (fmul rnd (x a) (z b)))
     (fsub rnd (fmul rnd (x a) (y b)) (fmul rnd (y a) (x b)))"

definition softness :: "rounding \<Rightarrow> real" where
  "softness rnd = rnd (5 / 100)"

definition damping :: "rounding \<Rightarrow> real" where
  "damping rnd = rnd (995 / 1000)"

definition maxW :: real where
  \<comment> \<open>\<^verbatim>\<open>5.0f\<close> is a binary fraction: no rounding\<close>
  "maxW = 5"

definition mesh_vrel :: "rounding \<Rightarrow> SphereGPU \<Rightarrow> SphereGPU \<Rightarrow> float3" where
  \<comment> \<open>lines 34 to 41\<close>
  "mesh_vrel rnd a b =
     (let v1 = crossf rnd (omega a) (make_float3 1 0 0);
          v2 = crossf rnd (omega b) (make_float3 (- 1) 0 0)
      in make_float3 (fsub rnd (x v1) (x v2)) (fsub rnd (y v1) (y v2)) (fsub rnd (z v1) (z v2)))"

definition mesh_correction :: "rounding \<Rightarrow> SphereGPU \<Rightarrow> SphereGPU \<Rightarrow> SphereGPU \<times> SphereGPU" where
  \<comment> \<open>lines 34 to 46: \<open>vrel\<close> is a local, computed before the first write\<close>
  "mesh_correction rnd a b =
     (let vrel = mesh_vrel rnd a b;
          a = a\<lparr>omega := (omega a)\<lparr>y := fsub rnd (y (omega a)) (fmul rnd (y vrel) (softness rnd))\<rparr>\<rparr>;
          a = a\<lparr>omega := (omega a)\<lparr>z := fsub rnd (z (omega a)) (fmul rnd (z vrel) (softness rnd))\<rparr>\<rparr>;
          b = b\<lparr>omega := (omega b)\<lparr>y := fadd rnd (y (omega b)) (fmul rnd (y vrel) (softness rnd))\<rparr>\<rparr>;
          b = b\<lparr>omega := (omega b)\<lparr>z := fadd rnd (z (omega b)) (fmul rnd (z vrel) (softness rnd))\<rparr>\<rparr>
      in (a, b))"

definition mesh_damping :: "rounding \<Rightarrow> SphereGPU \<times> SphereGPU \<Rightarrow> SphereGPU \<times> SphereGPU" where
  \<comment> \<open>lines 48 to 53\<close>
  "mesh_damping rnd p =
     (let a = fst p; b = snd p;
          a = a\<lparr>omega := (omega a)\<lparr>x := fmul rnd (x (omega a)) (damping rnd)\<rparr>\<rparr>;
          a = a\<lparr>omega := (omega a)\<lparr>y := fmul rnd (y (omega a)) (damping rnd)\<rparr>\<rparr>;
          a = a\<lparr>omega := (omega a)\<lparr>z := fmul rnd (z (omega a)) (damping rnd)\<rparr>\<rparr>;
          b = b\<lparr>omega := (omega b)\<lparr>x := fmul rnd (x (omega b)) (damping rnd)\<rparr>\<rparr>;
          b = b\<lparr>omega := (omega b)\<lparr>y := fmul rnd (y (omega b)) (damping rnd)\<rparr>\<rparr>;
          b = b\<lparr>omega := (omega b)\<lparr>z := fmul rnd (z (omega b)) (damping rnd)\<rparr>\<rparr>
      in (a, b))"

definition mesh_clamp :: "SphereGPU \<times> SphereGPU \<Rightarrow> SphereGPU \<times> SphereGPU" where
  \<comment> \<open>lines 55 to 60\<close>
  "mesh_clamp p =
     (let a = fst p; b = snd p;
          a = a\<lparr>omega := (omega a)\<lparr>x := fminf (fmaxf (x (omega a)) (- maxW)) maxW\<rparr>\<rparr>;
          a = a\<lparr>omega := (omega a)\<lparr>y := fminf (fmaxf (y (omega a)) (- maxW)) maxW\<rparr>\<rparr>;
          a = a\<lparr>omega := (omega a)\<lparr>z := fminf (fmaxf (z (omega a)) (- maxW)) maxW\<rparr>\<rparr>;
          b = b\<lparr>omega := (omega b)\<lparr>x := fminf (fmaxf (x (omega b)) (- maxW)) maxW\<rparr>\<rparr>;
          b = b\<lparr>omega := (omega b)\<lparr>y := fminf (fmaxf (y (omega b)) (- maxW)) maxW\<rparr>\<rparr>;
          b = b\<lparr>omega := (omega b)\<lparr>z := fminf (fmaxf (z (omega b)) (- maxW)) maxW\<rparr>\<rparr>
      in (a, b))"

definition enforce_mesh :: "rounding \<Rightarrow> SphereGPU \<Rightarrow> SphereGPU \<Rightarrow> SphereGPU \<times> SphereGPU" where
  \<comment> \<open>the kernel writes through its two pointers; the model returns both records\<close>
  "enforce_mesh rnd a b = mesh_clamp (mesh_damping rnd (mesh_correction rnd a b))"

definition mesh_iter :: "rounding \<Rightarrow> nat \<Rightarrow> SphereGPU \<times> SphereGPU \<Rightarrow> SphereGPU \<times> SphereGPU" where
  \<comment> \<open>\<open>n\<close> launches in a row, nothing in between\<close>
  "mesh_iter rnd n = ((\<lambda>p. enforce_mesh rnd (fst p) (snd p)) ^^ n)"

section \<open>Quaternions\<close>

record Quat =
  qw :: real
  qx :: real
  qy :: real
  qz :: real

definition quat_mul :: "rounding \<Rightarrow> Quat \<Rightarrow> Quat \<Rightarrow> Quat" where
  \<comment> \<open>C evaluates each sum from left to right\<close>
  "quat_mul rnd a b = \<lparr>
     qw = fsub rnd (fsub rnd (fsub rnd (fmul rnd (qw a) (qw b)) (fmul rnd (qx a) (qx b)))
                             (fmul rnd (qy a) (qy b))) (fmul rnd (qz a) (qz b)),
     qx = fsub rnd (fadd rnd (fadd rnd (fmul rnd (qw a) (qx b)) (fmul rnd (qx a) (qw b)))
                             (fmul rnd (qy a) (qz b))) (fmul rnd (qz a) (qy b)),
     qy = fadd rnd (fadd rnd (fsub rnd (fmul rnd (qw a) (qy b)) (fmul rnd (qx a) (qz b)))
                             (fmul rnd (qy a) (qw b))) (fmul rnd (qz a) (qx b)),
     qz = fadd rnd (fsub rnd (fadd rnd (fmul rnd (qw a) (qz b)) (fmul rnd (qx a) (qy b)))
                             (fmul rnd (qy a) (qx b))) (fmul rnd (qz a) (qw b)) \<rparr>"

definition quat_len :: "rounding \<Rightarrow> Quat \<Rightarrow> real" where
  \<comment> \<open>the local \<^verbatim>\<open>n\<close> of \<^verbatim>\<open>quat_norm\<close>, line 79\<close>
  "quat_len rnd q =
     fsqrt rnd (fadd rnd (fadd rnd (fadd rnd (fmul rnd (qw q) (qw q)) (fmul rnd (qx q) (qx q)))
                                   (fmul rnd (qy q) (qy q))) (fmul rnd (qz q) (qz q)))"

definition quat_norm :: "rounding \<Rightarrow> Quat \<Rightarrow> Quat option" where
  \<comment> \<open>\<open>None\<close>: the four divisions of line 80 are divisions by zero, and the components
      the C code returns are infinite or not a number\<close>
  "quat_norm rnd q =
     (let n = quat_len rnd q
      in if n = 0 then None
         else Some \<lparr> qw = fdiv rnd (qw q) n, qx = fdiv rnd (qx q) n,
                     qy = fdiv rnd (qy q) n, qz = fdiv rnd (qz q) n \<rparr>)"

definition integrate_quat :: "rounding \<Rightarrow> Quat \<Rightarrow> float3 \<Rightarrow> real \<Rightarrow> Quat option" where
  \<comment> \<open>the new value of the reference parameter \<^verbatim>\<open>q\<close>\<close>
  "integrate_quat rnd q om dt =
     (let dq = \<lparr> qw = 0, qx = fmul rnd (x om) dt, qy = fmul rnd (y om) dt, qz = fmul rnd (z om) dt \<rparr>
      in quat_norm rnd (quat_mul rnd q dq))"

section \<open>The render loop\<close>

text \<open>
  The state is the set of variables of \<^verbatim>\<open>main\<close> that the loop reads and writes: the two
  positions, the two orientations, the host copies \<^verbatim>\<open>h1\<close>, \<^verbatim>\<open>h2\<close> of the angular velocities
  and the device copies behind \<^verbatim>\<open>d1\<close>, \<^verbatim>\<open>d2\<close>. An orientation is \<open>None\<close> once a
  normalisation has divided by zero: every later product then has a component that is not
  a number, and so has every later orientation.
\<close>

record state =
  x1 :: real
  x2 :: real
  q1 :: "Quat option"
  q2 :: "Quat option"
  h1 :: SphereGPU
  h2 :: SphereGPU
  d1 :: SphereGPU
  d2 :: SphereGPU

definition contactThreshold :: "rounding \<Rightarrow> real" where
  \<comment> \<open>\<^verbatim>\<open>-1.01f\<close>: unary minus applied to the literal\<close>
  "contactThreshold rnd = - rnd (101 / 100)"

definition approachStep :: "rounding \<Rightarrow> real" where
  "approachStep rnd = rnd (1 / 100)"

definition dt :: "rounding \<Rightarrow> real" where
  "dt rnd = rnd (1 / 100)"

datatype phase = APPROACHING | MESHED

definition phase_of :: "rounding \<Rightarrow> state \<Rightarrow> phase" where
  \<comment> \<open>the test of line 188\<close>
  "phase_of rnd s = (if x1 s < contactThreshold rnd then APPROACHING else MESHED)"

definition controller :: "rounding \<Rightarrow> state \<Rightarrow> state" where
  \<comment> \<open>lines 188 and 189\<close>
  "controller rnd s =
     (if x1 s < contactThreshold rnd
      then s\<lparr>x1 := fadd rnd (x1 s) (approachStep rnd), x2 := fsub rnd (x2 s) (approachStep rnd)\<rparr>
      else (let p = enforce_mesh rnd (d1 s) (d2 s) in s\<lparr>d1 := fst p, d2 := snd p\<rparr>))"

definition copy_out :: "state \<Rightarrow> state" where
  \<comment> \<open>lines 191 and 192\<close>
  "copy_out s = s\<lparr>h1 := d1 s, h2 := d2 s\<rparr>"

definition integrate :: "rounding \<Rightarrow> state \<Rightarrow> state" where
  \<comment> \<open>lines 194 and 195\<close>
  "integrate rnd s =
     s\<lparr>q1 := Option.bind (q1 s) (\<lambda>q. integrate_quat rnd q (omega (h1 s)) (dt rnd)),
       q2 := Option.bind (q2 s) (\<lambda>q. integrate_quat rnd q (omega (h2 s)) (dt rnd))\<rparr>"

definition frame :: "rounding \<Rightarrow> state \<Rightarrow> state" where
  \<comment> \<open>one turn of the loop of line 183; drawing reads the state and changes nothing\<close>
  "frame rnd s = integrate rnd (copy_out (controller rnd s))"

definition frames :: "rounding \<Rightarrow> nat \<Rightarrow> state \<Rightarrow> state" where
  "frames rnd n = (frame rnd ^^ n)"

definition init :: "rounding \<Rightarrow> state" where
  \<comment> \<open>lines 170 to 179\<close>
  "init rnd =
     (let hA = \<lparr>omega = make_float3 (rnd (4 / 10)) (rnd (9 / 10)) (rnd (2 / 10))\<rparr>;
          hB = \<lparr>omega = make_float3 (- rnd (3 / 10)) (rnd (2 / 10)) (rnd (8 / 10))\<rparr>
      in \<lparr> x1 = - 2, x2 = 2,
           q1 = Some \<lparr>qw = 1, qx = 0, qy = 0, qz = 0\<rparr>,
           q2 = Some \<lparr>qw = 1, qx = 0, qy = 0, qz = 0\<rparr>,
           h1 = hA, h2 = hB, d1 = hA, d2 = hB \<rparr>)"

section \<open>The specification's reading of the components\<close>

text \<open>
  The definitions of this section follow the words of the specification, not the source;
  the theorems below compare them with the definitions above.
\<close>

definition cross_spec :: "rounding \<Rightarrow> float3 \<Rightarrow> float3 \<Rightarrow> float3" where
  "cross_spec rnd u v = \<lparr>
     x = fsub rnd (fmul rnd (y u) (z v)) (fmul rnd (z u) (y v)),
     y = fsub rnd (fmul rnd (z u) (x v)) (fmul rnd (x u) (z v)),
     z = fsub rnd (fmul rnd (x u) (y v)) (fmul rnd (y u) (x v)) \<rparr>"

definition damp_clamp_spec :: "rounding \<Rightarrow> real \<Rightarrow> real" where
  \<comment> \<open>multiplied by 0.995, then clamped to the interval from -5 to 5\<close>
  "damp_clamp_spec rnd v = min (max (fmul rnd v (rnd (995 / 1000))) (- 5)) 5"

definition mesh_step_spec :: "rounding \<Rightarrow> float3 \<Rightarrow> float3 \<Rightarrow> float3 \<times> float3" where
  \<comment> \<open>steps 1 to 5 of section 4.2, every right-hand side read from the arguments\<close>
  "mesh_step_spec rnd wA wB =
     (let vA = cross_spec rnd wA \<lparr>x = 1, y = 0, z = 0\<rparr>;
          vB = cross_spec rnd wB \<lparr>x = - 1, y = 0, z = 0\<rparr>;
          vrel_y = fsub rnd (y vA) (y vB);
          vrel_z = fsub rnd (z vA) (z vB)
      in (\<lparr> x = damp_clamp_spec rnd (x wA),
             y = damp_clamp_spec rnd (fsub rnd (y wA) (fmul rnd vrel_y (rnd (5 / 100)))),
             z = damp_clamp_spec rnd (fsub rnd (z wA) (fmul rnd vrel_z (rnd (5 / 100)))) \<rparr>,
           \<lparr> x = damp_clamp_spec rnd (x wB),
             y = damp_clamp_spec rnd (fadd rnd (y wB) (fmul rnd vrel_y (rnd (5 / 100)))),
             z = damp_clamp_spec rnd (fadd rnd (z wB) (fmul rnd vrel_z (rnd (5 / 100)))) \<rparr>))"

definition vec_part :: "Quat \<Rightarrow> float3" where
  "vec_part a = \<lparr>x = qx a, y = qy a, z = qz a\<rparr>"

definition dot3 :: "float3 \<Rightarrow> float3 \<Rightarrow> real" where
  "dot3 u v = x u * x v + y u * y v + z u * z v"

definition cross3 :: "float3 \<Rightarrow> float3 \<Rightarrow> float3" where
  "cross3 u v =
     \<lparr>x = y u * z v - z u * y v, y = z u * x v - x u * z v, z = x u * y v - y u * x v\<rparr>"

definition hamilton :: "Quat \<Rightarrow> Quat \<Rightarrow> Quat" where
  \<comment> \<open>the Hamilton product by scalar and vector parts:
      \<open>(s, u) (t, v) = (s t - u \<sqdot> v, s v + t u + u \<times> v)\<close>\<close>
  "hamilton a b =
     (let s = qw a; u = vec_part a; t = qw b; v = vec_part b; c = cross3 u v
      in \<lparr> qw = s * t - dot3 u v,
           qx = s * x v + t * x u + x c,
           qy = s * y v + t * y u + y c,
           qz = s * z v + t * z u + z c \<rparr>)"

definition euclid_norm :: "Quat \<Rightarrow> real" where
  "euclid_norm a = sqrt ((qw a)\<^sup>2 + (qx a)\<^sup>2 + (qy a)\<^sup>2 + (qz a)\<^sup>2)"

definition normalize_spec :: "Quat \<Rightarrow> Quat option" where
  \<comment> \<open>undefined on a quaternion of norm zero\<close>
  "normalize_spec a =
     (if euclid_norm a = 0 then None
      else Some \<lparr> qw = qw a / euclid_norm a, qx = qx a / euclid_norm a,
                  qy = qy a / euclid_norm a, qz = qz a / euclid_norm a \<rparr>)"

definition pure_quat :: "float3 \<Rightarrow> real \<Rightarrow> Quat" where
  "pure_quat om h = \<lparr>qw = 0, qx = x om * h, qy = y om * h, qz = z om * h\<rparr>"

section \<open>Quantities and states the theorems speak of\<close>

definition within_limit :: "float3 \<Rightarrow> bool" where
  "within_limit v =
     (- 5 \<le> x v \<and> x v \<le> 5 \<and> - 5 \<le> y v \<and> y v \<le> 5 \<and> - 5 \<le> z v \<and> z v \<le> 5)"

definition damp_clamp :: "rounding \<Rightarrow> real \<Rightarrow> real" where
  \<comment> \<open>what lines 48 and 55 do to one component\<close>
  "damp_clamp rnd v = fminf (fmaxf (fmul rnd v (damping rnd)) (- maxW)) maxW"

definition slip :: "rounding \<Rightarrow> SphereGPU \<times> SphereGPU \<Rightarrow> real" where
  \<comment> \<open>\<open>|vrel.y| + |vrel.z|\<close>, with \<open>vrel\<close> as lines 34 to 41 compute it from the two records\<close>
  "slip rnd p = (let vrel = mesh_vrel rnd (fst p) (snd p) in \<bar>y vrel\<bar> + \<bar>z vrel\<bar>)"

definition touching :: state where
  \<comment> \<open>the initial state with the two bodies moved into contact\<close>
  "touching = (init exact)\<lparr>x1 := - 1, x2 := 1\<rparr>"

text \<open>Two bodies that spin about the \<open>y\<close> axis in opposite senses.\<close>

definition spinA :: SphereGPU where
  "spinA = \<lparr>omega = \<lparr>x = 0, y = 1, z = 0\<rparr>\<rparr>"

definition spinB :: SphereGPU where
  "spinB = \<lparr>omega = \<lparr>x = 0, y = - 1, z = 0\<rparr>\<rparr>"

section \<open>Quantities used in the proofs\<close>

definition spinning :: "state \<Rightarrow> bool" where
  \<comment> \<open>both orientations are unit quaternions and both bodies turn about the \<open>x\<close> axis\<close>
  "spinning s =
     ((\<exists>r. q1 s = Some r \<and> euclid_norm r = 1) \<and> (\<exists>r. q2 s = Some r \<and> euclid_norm r = 1) \<and>
      x (omega (d1 s)) \<noteq> 0 \<and> x (omega (d2 s)) \<noteq> 0)"

definition eps32 :: real where
  \<comment> \<open>half a unit in the last place of a number in \<open>[1, 2)\<close>\<close>
  "eps32 = 1 / 2 ^ 24"

definition eta32 :: real where
  \<comment> \<open>half the least positive binary32 number\<close>
  "eta32 = 1 / 2 ^ 150"

definition clampW :: "real \<Rightarrow> real" where
  "clampW v = min (max v (- 5)) 5"

definition lyap :: "SphereGPU \<times> SphereGPU \<Rightarrow> real" where
  \<comment> \<open>a weighted size of the two angular velocities that every launch shrinks\<close>
  "lyap p =
     (let a = omega (fst p); b = omega (snd p)
      in \<bar>y a - y b\<bar> + \<bar>z a - z b\<bar> + 40 * (\<bar>y a + y b\<bar> + \<bar>z a + z b\<bar>) + \<bar>x a\<bar> + \<bar>x b\<bar>)"

section \<open>Exact arithmetic\<close>

lemma exact_ops:
  "fadd exact a b = a + b" "fsub exact a b = a - b" "fmul exact a b = a * b"
  "fdiv exact a b = a / b" "fsqrt exact a = sqrt a"
  by (simp_all add: fadd_def fsub_def fmul_def fdiv_def fsqrt_def exact_def)

lemma exact_consts:
  "softness exact = 1 / 20" "damping exact = 199 / 200"
  "contactThreshold exact = - (101 / 100)" "approachStep exact = 1 / 100" "dt exact = 1 / 100"
  by (simp_all add: softness_def damping_def contactThreshold_def approachStep_def dt_def exact_def)

section \<open>Properties of the coupling kernel\<close>

lemmas mesh_defs = enforce_mesh_def mesh_clamp_def mesh_damping_def mesh_correction_def
  mesh_vrel_def crossf_def make_float3_def

text \<open>
  Claim C1. For every pair of angular velocities and every rounding, one launch of
  \<^verbatim>\<open>enforce_mesh\<close> computes the sequence of the specification: the surface velocities are
  the cross products with the normals \<open>(1,0,0)\<close> and \<open>(-1,0,0)\<close>, \<open>vrel\<close> is their difference,
  the \<open>y\<close> and \<open>z\<close> components of body A decrease by \<open>vrel * 0.05\<close> and those of body B
  increase by it, both read from the velocities before the step, and all six components
  are then multiplied by 0.995 and clamped to \<open>[-5, 5]\<close>. The records hold nothing else.
\<close>

theorem enforce_mesh_refines_spec:
  "enforce_mesh rnd a b =
     (\<lparr>omega = fst (mesh_step_spec rnd (omega a) (omega b))\<rparr>,
      \<lparr>omega = snd (mesh_step_spec rnd (omega a) (omega b))\<rparr>)"
  by (simp add: mesh_defs mesh_step_spec_def cross_spec_def damp_clamp_spec_def Let_def
      softness_def damping_def maxW_def fminf_def fmaxf_def)

text \<open>
  Claim C3. After any launch of the kernel, whatever the velocities before it and whatever
  the rounding, every component of both angular velocities lies between -5 and 5.
\<close>

theorem enforce_mesh_within_limit:
  "within_limit (omega (fst (enforce_mesh rnd a b))) \<and>
   within_limit (omega (snd (enforce_mesh rnd a b)))"
  by (simp add: mesh_defs within_limit_def Let_def maxW_def fminf_def fmaxf_def)

lemma enforce_mesh_x:
  "x (omega (fst (enforce_mesh rnd a b))) = damp_clamp rnd (x (omega a))"
  "x (omega (snd (enforce_mesh rnd a b))) = damp_clamp rnd (x (omega b))"
  by (simp_all add: mesh_defs damp_clamp_def Let_def)

lemma mesh_correction_x:
  "x (omega (fst (mesh_correction rnd a b))) = x (omega a)"
  "x (omega (snd (mesh_correction rnd a b))) = x (omega b)"
  by (simp_all add: mesh_correction_def Let_def)

lemma mesh_iter_x:
  "x (omega (fst (mesh_iter rnd n (a, b)))) = (damp_clamp rnd ^^ n) (x (omega a))"
  "x (omega (snd (mesh_iter rnd n (a, b)))) = (damp_clamp rnd ^^ n) (x (omega b))"
  by (induction n) (simp_all add: mesh_iter_def enforce_mesh_x)

text \<open>
  Claim C7. The correction of lines 43 to 46 leaves the \<open>x\<close> component of both bodies as it
  was, and after any number of launches the \<open>x\<close> component of a body is its first value
  damped and clamped that many times: it depends on nothing else, in particular not on
  the other body nor on the \<open>y\<close> and \<open>z\<close> components.
\<close>

theorem x_axis_decoupled:
  "x (omega (fst (mesh_correction rnd a b))) = x (omega a) \<and>
   x (omega (snd (mesh_correction rnd a b))) = x (omega b) \<and>
   x (omega (fst (mesh_iter rnd n (a, b)))) = (damp_clamp rnd ^^ n) (x (omega a)) \<and>
   x (omega (snd (mesh_iter rnd n (a, b)))) = (damp_clamp rnd ^^ n) (x (omega b))"
  by (simp add: mesh_correction_x mesh_iter_x)

section \<open>Properties of the orientation integrator\<close>

lemma quat_mul_exact: "quat_mul exact a b = hamilton a b"
  by (simp add: quat_mul_def hamilton_def vec_part_def dot3_def cross3_def exact_ops Let_def
      algebra_simps)

lemma quat_len_exact: "quat_len exact a = euclid_norm a"
  by (simp add: quat_len_def euclid_norm_def exact_ops power2_eq_square)

lemma quat_norm_exact: "quat_norm exact a = normalize_spec a"
  by (simp add: quat_norm_def normalize_spec_def quat_len_exact exact_ops Let_def)

lemma hamilton_not_commutative:
  "hamilton \<lparr>qw = 0, qx = 1, qy = 0, qz = 0\<rparr> \<lparr>qw = 0, qx = 0, qy = 1, qz = 0\<rparr>
     = \<lparr>qw = 0, qx = 0, qy = 0, qz = 1\<rparr>"
  "hamilton \<lparr>qw = 0, qx = 0, qy = 1, qz = 0\<rparr> \<lparr>qw = 0, qx = 1, qy = 0, qz = 0\<rparr>
     = \<lparr>qw = 0, qx = 0, qy = 0, qz = - 1\<rparr>"
  by (simp_all add: hamilton_def vec_part_def dot3_def cross3_def Let_def)

text \<open>
  Claim C4, amended. In exact arithmetic, for every orientation \<open>q\<close>, angular velocity \<open>\<omega>\<close>
  and time step \<open>dt\<close>, \<^verbatim>\<open>integrate_quat\<close> returns the normalised Hamilton product of \<open>q\<close> with
  the pure quaternion \<open>(0, \<omega>.x dt, \<omega>.y dt, \<omega>.z dt)\<close>, where normalising divides the four
  components by the Euclidean norm and has no result when that norm is zero. In the
  binary32 arithmetic of the source the equality does not hold; see the section on the
  orientations in binary32.
\<close>

theorem integrate_quat_normalized_product_exact:
  "integrate_quat exact q om h = normalize_spec (hamilton q (pure_quat om h))"
  by (simp add: integrate_quat_def quat_mul_exact quat_norm_exact pure_quat_def exact_ops Let_def)

section \<open>Properties of the approach controller\<close>

lemma frame_fields:
  "x1 (frame rnd s) = x1 (controller rnd s)" "x2 (frame rnd s) = x2 (controller rnd s)"
  "d1 (frame rnd s) = d1 (controller rnd s)" "d2 (frame rnd s) = d2 (controller rnd s)"
  "h1 (frame rnd s) = d1 (controller rnd s)" "h2 (frame rnd s) = d2 (controller rnd s)"
  by (simp_all add: frame_def integrate_def copy_out_def)

lemma controller_meshed:
  "phase_of rnd s = MESHED \<Longrightarrow>
     x1 (controller rnd s) = x1 s \<and> x2 (controller rnd s) = x2 s \<and>
     d1 (controller rnd s) = fst (enforce_mesh rnd (d1 s) (d2 s)) \<and>
     d2 (controller rnd s) = snd (enforce_mesh rnd (d1 s) (d2 s))"
  by (simp add: controller_def phase_of_def Let_def split: if_splits)

lemma controller_approaching:
  "phase_of rnd s = APPROACHING \<Longrightarrow>
     x1 (controller rnd s) = fadd rnd (x1 s) (approachStep rnd) \<and>
     x2 (controller rnd s) = fsub rnd (x2 s) (approachStep rnd) \<and>
     d1 (controller rnd s) = d1 s \<and> d2 (controller rnd s) = d2 s"
  by (simp add: controller_def phase_of_def Let_def split: if_splits)

lemma frames_Suc: "frames rnd (Suc n) s = frame rnd (frames rnd n s)"
  by (simp add: frames_def)

lemma frames_0: "frames rnd 0 s = s"
  by (simp add: frames_def)

lemma frames_add: "frames rnd (m + n) s = frames rnd m (frames rnd n s)"
  by (simp add: frames_def funpow_add)

lemma init_pos: "x1 (init rnd) = - 2" "x2 (init rnd) = 2"
  by (simp_all add: init_def Let_def)

lemma meshed_frames:
  "phase_of rnd s = MESHED \<Longrightarrow>
     phase_of rnd (frames rnd n s) = MESHED \<and>
     x1 (frames rnd n s) = x1 s \<and> x2 (frames rnd n s) = x2 s"
proof (induction n)
  case 0
  then show ?case by (simp add: frames_0)
next
  case (Suc n)
  then have m: "phase_of rnd (frames rnd n s) = MESHED"
    and p: "x1 (frames rnd n s) = x1 s" "x2 (frames rnd n s) = x2 s" by simp_all
  from controller_meshed [OF m] p have
    "x1 (frames rnd (Suc n) s) = x1 s" "x2 (frames rnd (Suc n) s) = x2 s"
    by (simp_all add: frames_Suc frame_fields)
  moreover from this(1) Suc.prems have "phase_of rnd (frames rnd (Suc n) s) = MESHED"
    by (simp add: phase_of_def)
  ultimately show ?case by simp
qed

text \<open>
  Claim C8. Under any rounding: from a state whose phase is \<open>MESHED\<close>, after any number of
  frames the phase is still \<open>MESHED\<close>, both positions are what they were, and the next
  frame replaces the device velocities by the output of the kernel on them; and a frame
  that starts in phase \<open>APPROACHING\<close> leaves the device velocities untouched (no launch).
\<close>

theorem meshed_is_permanent:
  "(phase_of rnd s = MESHED \<longrightarrow>
      phase_of rnd (frames rnd n s) = MESHED \<and>
      x1 (frames rnd n s) = x1 s \<and> x2 (frames rnd n s) = x2 s \<and>
      d1 (frames rnd (Suc n) s) =
        fst (enforce_mesh rnd (d1 (frames rnd n s)) (d2 (frames rnd n s))) \<and>
      d2 (frames rnd (Suc n) s) =
        snd (enforce_mesh rnd (d1 (frames rnd n s)) (d2 (frames rnd n s)))) \<and>
   (phase_of rnd s = APPROACHING \<longrightarrow> d1 (frame rnd s) = d1 s \<and> d2 (frame rnd s) = d2 s)"
proof (intro conjI impI)
  assume m: "phase_of rnd s = MESHED"
  note k = meshed_frames [OF m, of n]
  from k show "phase_of rnd (frames rnd n s) = MESHED" "x1 (frames rnd n s) = x1 s"
    "x2 (frames rnd n s) = x2 s" by simp_all
  from k have "phase_of rnd (frames rnd n s) = MESHED" by simp
  from controller_meshed [OF this]
  show "d1 (frames rnd (Suc n) s) =
      fst (enforce_mesh rnd (d1 (frames rnd n s)) (d2 (frames rnd n s)))"
    "d2 (frames rnd (Suc n) s) =
      snd (enforce_mesh rnd (d1 (frames rnd n s)) (d2 (frames rnd n s)))"
    by (simp_all add: frames_Suc frame_fields)
next
  assume "phase_of rnd s = APPROACHING"
  from controller_approaching [OF this] show "d1 (frame rnd s) = d1 s" "d2 (frame rnd s) = d2 s"
    by (simp_all add: frame_fields)
qed

theorem meshed_is_permanent_witness:
  "phase_of exact touching = MESHED \<and> phase_of exact (init exact) = APPROACHING \<and>
   phase_of exact (frames exact 2 touching) = MESHED \<and>
   x1 (frames exact 2 touching) = - 1 \<and> x2 (frames exact 2 touching) = 1 \<and>
   d1 (frame exact (init exact)) = d1 (init exact) \<and>
   d2 (frame exact (init exact)) = d2 (init exact)"
  using meshed_is_permanent [of exact touching 2] meshed_is_permanent [of exact "init exact" 0]
  by (simp add: phase_of_def touching_def init_def exact_consts Let_def)

section \<open>Evaluating binary32 roundings\<close>

lemma rne_near:
  assumes "\<bar>r - of_int m\<bar> < 1 / 2"
  shows "rne r = m"
proof -
  have "\<lfloor>r\<rfloor> = m \<or> \<lfloor>r\<rfloor> = m - 1" using assms by linarith
  then show ?thesis
  proof
    assume f: "\<lfloor>r\<rfloor> = m"
    then have "r - of_int m < 1 / 2" using assms by linarith
    with f show ?thesis by (simp add: rne_def Let_def)
  next
    assume f: "\<lfloor>r\<rfloor> = m - 1"
    from assms have "- (1 / 2) < r - of_int m" by linarith
    then have "1 / 2 < r - of_int (m - 1)" by simp
    with f show ?thesis by (simp add: rne_def Let_def)
  qed
qed

lemma floor_log2_eq:
  assumes "2 powi e \<le> \<bar>v\<bar>" "\<bar>v\<bar> < 2 powi (e + 1)"
  shows "\<lfloor>log 2 \<bar>v\<bar>\<rfloor> = e"
proof -
  have "0 < (2::real) powi e" by simp
  with assms(1) have "0 < \<bar>v\<bar>" by linarith
  moreover have p: "(2::real) powr real_of_int k = 2 powi k" for k
    by (simp add: powr_real_of_int')
  moreover have "2 powr real_of_int e \<le> \<bar>v\<bar> \<and> \<bar>v\<bar> < 2 powr real_of_int (e + 1)"
    using assms by (simp only: p)
  ultimately show ?thesis
    using floor_log_eq_powr_iff [of "\<bar>v\<bar>" 2 e] by simp
qed

lemma round32_eval:
  assumes "2 powi e \<le> \<bar>v\<bar>" "\<bar>v\<bar> < 2 powi (e + 1)" "- 126 \<le> e"
    and "\<bar>v / 2 powi (e - 23) - of_int m\<bar> < 1 / 2"
  shows "round32 v = of_int m * 2 powi (e - 23)"
proof -
  have "0 < (2::real) powi e" by simp
  with assms(1) have "0 < \<bar>v\<bar>" by linarith
  then have "v \<noteq> 0" by simp
  moreover have "ulp_exp v = e - 23"
    using floor_log2_eq [OF assms(1,2)] assms(3) by (simp add: ulp_exp_def)
  ultimately show ?thesis using rne_near [OF assms(4)] by (simp add: round32_def)
qed

lemma round32_exact:
  assumes "2 powi e \<le> \<bar>v\<bar>" "\<bar>v\<bar> < 2 powi (e + 1)" "- 126 \<le> e"
    and "v = of_int m * 2 powi (e - 23)"
  shows "round32 v = v"
proof -
  have "v / 2 powi (e - 23) = of_int m" using assms(4) by simp
  then have "\<bar>v / 2 powi (e - 23) - of_int m\<bar> < 1 / 2" by simp
  from round32_eval [OF assms(1,2,3) this] assms(4) show ?thesis by simp
qed

lemma approachStep32: "approachStep round32 = 5368709 / 2 ^ 29"
  unfolding approachStep_def
  using round32_eval [of "- 7" "1 / 100" 10737418]
  by (simp add: power_int_minus)

lemma contactThreshold32: "contactThreshold round32 = - (8472494 / 2 ^ 23)"
  unfolding contactThreshold_def
  using round32_eval [of 0 "101 / 100" 8472494]
  by (simp add: power_int_minus)

lemma step32:
  fixes k :: int
  assumes "- 16777216 \<le> k" "k \<le> - 8472502"
  shows "round32 (of_int k / 2 ^ 23 + 5368709 / 2 ^ 29) = of_int (k + 83886) / 2 ^ 23"
    and "round32 (- (of_int k / 2 ^ 23) - 5368709 / 2 ^ 29) = - (of_int (k + 83886) / 2 ^ 23)"
proof -
  define v :: real where "v = of_int k / 2 ^ 23 + 5368709 / 2 ^ 29"
  have kr: "- 16777216 \<le> (of_int k :: real)" "(of_int k :: real) \<le> - 8472502"
    using assms by linarith+
  have b: "v \<le> - 1" "- 2 < v" using kr by (simp_all add: v_def field_simps)
  have m: "v * 2 ^ 23 = of_int k + 5368709 / 64" by (simp add: v_def field_simps)
  have 1: "2 powi 0 \<le> \<bar>v\<bar>" "\<bar>v\<bar> < 2 powi (0 + 1)" using b by simp_all
  have 2: "\<bar>v / 2 powi (0 - 23) - of_int (k + 83886)\<bar> < 1 / 2"
    using m by (simp add: power_int_minus field_simps)
  from round32_eval [OF 1 _ 2] show "round32 (of_int k / 2 ^ 23 + 5368709 / 2 ^ 29) = of_int (k + 83886) / 2 ^ 23"
    by (simp add: v_def power_int_minus)
  have 3: "2 powi 0 \<le> \<bar>- v\<bar>" "\<bar>- v\<bar> < 2 powi (0 + 1)" using b by simp_all
  have 4: "\<bar>(- v) / 2 powi (0 - 23) - of_int (- (k + 83886))\<bar> < 1 / 2"
    using m by (simp add: power_int_minus field_simps)
  have "round32 (- v) = of_int (- (k + 83886)) * 2 powi (0 - 23)"
    by (rule round32_eval [OF 3 _ 4]) simp
  also have "\<dots> = - (of_int (k + 83886) / 2 ^ 23)"
    by (simp add: power_int_minus add_divide_distrib)
  finally show "round32 (- (of_int k / 2 ^ 23) - 5368709 / 2 ^ 29) = - (of_int (k + 83886) / 2 ^ 23)"
    by (simp add: v_def)
qed

section \<open>The length of the approach\<close>

lemma approach32:
  "n \<le> 100 \<Longrightarrow>
     x1 (frames round32 n (init round32)) = of_int (83886 * int n - 16777216) / 2 ^ 23 \<and>
     x2 (frames round32 n (init round32)) = - (of_int (83886 * int n - 16777216) / 2 ^ 23)"
proof (induction n)
  case 0
  show ?case by (simp add: frames_0 init_pos)
next
  case (Suc n)
  define k where "k = 83886 * int n - 16777216"
  define s where "s = frames round32 n (init round32)"
  from Suc have p: "x1 s = of_int k / 2 ^ 23" "x2 s = - (of_int k / 2 ^ 23)"
    by (simp_all add: k_def s_def)
  from Suc.prems have kb: "- 16777216 \<le> k" "k \<le> - 8472502" by (simp_all add: k_def)
  then have "(of_int k :: real) \<le> - 8472502" by linarith
  then have "x1 s < contactThreshold round32"
    by (simp add: p contactThreshold32)
  then have "phase_of round32 s = APPROACHING" by (simp add: phase_of_def)
  from controller_approaching [OF this] step32 [OF kb]
  have "x1 (frame round32 s) = of_int (k + 83886) / 2 ^ 23"
    "x2 (frame round32 s) = - (of_int (k + 83886) / 2 ^ 23)"
    by (simp_all add: frame_fields p approachStep32 fadd_def fsub_def)
  moreover have "k + 83886 = 83886 * int (Suc n) - 16777216" by (simp add: k_def)
  ultimately show ?case by (simp add: frames_Suc s_def)
qed

lemma approach32_phase:
  "phase_of round32 (frames round32 n (init round32)) = (if n < 100 then APPROACHING else MESHED)"
proof (cases "n \<le> 100")
  case True
  have "(of_int (83886 * int n - 16777216) / 2 ^ 23 < - (8472494 / 2 ^ 23 :: real)) = (n < 100)"
  proof -
    have "(of_int (83886 * int n - 16777216) / 2 ^ 23 < - (8472494 / 2 ^ 23 :: real))
        = (real_of_int (83886 * int n - 16777216) < real_of_int (- 8472494))" by simp
    also have "\<dots> = (83886 * int n - 16777216 < - 8472494)" by (simp only: of_int_less_iff)
    also have "\<dots> = (n < 100)" by auto
    finally show ?thesis .
  qed
  with approach32 [OF True] show ?thesis
    by (simp add: phase_of_def contactThreshold32)
next
  case False
  then obtain m where n: "n = m + 100" by (metis add.commute le_add_diff_inverse nat_le_linear)
  have "phase_of round32 (frames round32 100 (init round32)) = MESHED"
    using approach32 [of 100] by (simp add: phase_of_def contactThreshold32)
  from meshed_frames [OF this, of m] False show ?thesis by (simp add: n frames_add)
qed

text \<open>
  In exact arithmetic the count is the one the specification gives: 99 frames of approach,
  and contact at \<open>x1 = -1.01\<close> before frame 100.
\<close>

lemma approach_exact:
  "n \<le> 99 \<Longrightarrow>
     x1 (frames exact n (init exact)) = - 2 + real n / 100 \<and> x2 (frames exact n (init exact)) = 2 - real n / 100"
proof (induction n)
  case 0
  show ?case by (simp add: frames_0 init_pos)
next
  case (Suc n)
  define s where "s = frames exact n (init exact)"
  from Suc have p: "x1 s = - 2 + real n / 100" "x2 s = 2 - real n / 100" by (simp_all add: s_def)
  from Suc.prems have "real n < 99" by simp
  then have "x1 s < contactThreshold exact" by (simp add: p exact_consts)
  then have "phase_of exact s = APPROACHING" by (simp add: phase_of_def)
  from controller_approaching [OF this]
  show ?case by (simp add: frames_Suc s_def [symmetric] frame_fields p exact_consts exact_ops add_divide_distrib)
qed

lemma approach_exact_phase:
  "phase_of exact (frames exact n (init exact)) = (if n < 99 then APPROACHING else MESHED)"
proof (cases "n \<le> 99")
  case True
  with approach_exact [OF True] show ?thesis
    by (auto simp add: phase_of_def exact_consts)
next
  case False
  then obtain m where n: "n = m + 99" by (metis add.commute le_add_diff_inverse nat_le_linear)
  have "phase_of exact (frames exact 99 (init exact)) = MESHED"
    using approach_exact [of 99] by (simp add: phase_of_def exact_consts)
  from meshed_frames [OF this, of m] False show ?thesis by (simp add: n frames_add)
qed

lemma approach32_pos:
  "x1 (frames round32 n (init round32)) = of_int (83886 * int (min n 100) - 16777216) / 2 ^ 23 \<and>
   x2 (frames round32 n (init round32)) = - (of_int (83886 * int (min n 100) - 16777216) / 2 ^ 23)"
proof (cases "n \<le> 100")
  case True
  then have "min n 100 = n" by simp
  with approach32 [OF True] show ?thesis by simp
next
  case False
  then obtain m where n: "n = m + 100" by (metis add.commute le_add_diff_inverse nat_le_linear)
  have "phase_of round32 (frames round32 100 (init round32)) = MESHED"
    using approach32_phase [of 100] by simp
  from meshed_frames [OF this, of m] approach32 [of 100] False show ?thesis
    by (simp add: n frames_add)
qed

text \<open>
  Claim C6, as stated, fails in binary32. The sum of a position in \<open>[-2, -1]\<close> and
  \<^verbatim>\<open>0.01f\<close> is rounded to a multiple of \<open>2\<^sup>-\<^sup>2\<^sup>3\<close>, which moves the position by 83886 such
  units, a little less than 0.01. After 99 frames \<^verbatim>\<open>x1\<close> is \<open>-8472502 / 2\<^sup>2\<^sup>3\<close>, still below
  \<^verbatim>\<open>-1.01f\<close>, which is \<open>-8472494 / 2\<^sup>2\<^sup>3\<close>: the hundredth frame is an \<open>APPROACHING\<close> frame.
\<close>

theorem approach_frame_100_still_approaching:
  "phase_of round32 (frames round32 99 (init round32)) = APPROACHING \<and>
   x1 (frames round32 99 (init round32)) < contactThreshold round32"
proof -
  have "phase_of round32 (frames round32 99 (init round32)) = APPROACHING"
    using approach32_phase [of 99] by simp
  then show ?thesis by (simp add: phase_of_def split: if_splits)
qed

text \<open>
  Claim C6, amended. In binary32 the state before frame \<open>n + 1\<close> is in phase \<open>APPROACHING\<close>
  exactly when \<open>n < 100\<close>: the controller reports \<open>APPROACHING\<close> for exactly 100 frames, each
  of which moves \<^verbatim>\<open>x1\<close> up and \<^verbatim>\<open>x2\<close> down by \<open>83886 / 2\<^sup>2\<^sup>3\<close>, and the phase is \<open>MESHED\<close> from
  frame 101 on, with \<^verbatim>\<open>x1\<close> at \<open>-8388616 / 2\<^sup>2\<^sup>3\<close>, just below -1.
\<close>

theorem approach_lasts_100_frames:
  "phase_of round32 (frames round32 n (init round32)) = (if n < 100 then APPROACHING else MESHED) \<and>
   x1 (frames round32 n (init round32)) = of_int (83886 * int (min n 100) - 16777216) / 2 ^ 23 \<and>
   x2 (frames round32 n (init round32)) = - (of_int (83886 * int (min n 100) - 16777216) / 2 ^ 23)"
  using approach32_phase [of n] approach32_pos [of n] by simp

section \<open>The kernel in binary32\<close>


lemma round32_0: "round32 0 = 0" by (simp add: round32_def)

lemma round32_bin:
  "1 \<le> \<bar>v\<bar> \<Longrightarrow> \<bar>v\<bar> < 2 \<Longrightarrow> round32 v = of_int (rne (v * 2 ^ 23)) / 2 ^ 23"
  "1 / 2 \<le> \<bar>v\<bar> \<Longrightarrow> \<bar>v\<bar> < 1 \<Longrightarrow> round32 v = of_int (rne (v * 2 ^ 24)) / 2 ^ 24"
  "1 / 4 \<le> \<bar>v\<bar> \<Longrightarrow> \<bar>v\<bar> < 1 / 2 \<Longrightarrow> round32 v = of_int (rne (v * 2 ^ 25)) / 2 ^ 25"
  "1 / 8 \<le> \<bar>v\<bar> \<Longrightarrow> \<bar>v\<bar> < 1 / 4 \<Longrightarrow> round32 v = of_int (rne (v * 2 ^ 26)) / 2 ^ 26"
  "1 / 32 \<le> \<bar>v\<bar> \<Longrightarrow> \<bar>v\<bar> < 1 / 16 \<Longrightarrow> round32 v = of_int (rne (v * 2 ^ 28)) / 2 ^ 28"
proof -
  have g: "round32 v = of_int (rne (v * 2 powi (23 - e))) / 2 powi (23 - e)"
    if "2 powi e \<le> \<bar>v\<bar>" "\<bar>v\<bar> < 2 powi (e + 1)" "- 126 \<le> e" for e
  proof -
    have "0 < (2::real) powi e" by simp
    with that(1) have "0 < \<bar>v\<bar>" by linarith
    then have "v \<noteq> 0" by simp
    moreover have "ulp_exp v = e - 23"
      using floor_log2_eq [OF that(1,2)] that(3) by (simp add: ulp_exp_def)
    moreover have "(2::real) powi (e - 23) = 1 / 2 powi (23 - e)"
      by (metis minus_diff_eq power_int_minus inverse_eq_divide)
    ultimately show ?thesis by (simp add: round32_def)
  qed
  show "1 \<le> \<bar>v\<bar> \<Longrightarrow> \<bar>v\<bar> < 2 \<Longrightarrow> round32 v = of_int (rne (v * 2 ^ 23)) / 2 ^ 23"
    using g [of 0] by simp
  show "1 / 2 \<le> \<bar>v\<bar> \<Longrightarrow> \<bar>v\<bar> < 1 \<Longrightarrow> round32 v = of_int (rne (v * 2 ^ 24)) / 2 ^ 24"
    using g [of "- 1"] by (simp add: power_int_minus)
  show "1 / 4 \<le> \<bar>v\<bar> \<Longrightarrow> \<bar>v\<bar> < 1 / 2 \<Longrightarrow> round32 v = of_int (rne (v * 2 ^ 25)) / 2 ^ 25"
    using g [of "- 2"] by (simp add: power_int_minus)
  show "1 / 8 \<le> \<bar>v\<bar> \<Longrightarrow> \<bar>v\<bar> < 1 / 4 \<Longrightarrow> round32 v = of_int (rne (v * 2 ^ 26)) / 2 ^ 26"
    using g [of "- 3"] by (simp add: power_int_minus)
  show "1 / 32 \<le> \<bar>v\<bar> \<Longrightarrow> \<bar>v\<bar> < 1 / 16 \<Longrightarrow> round32 v = of_int (rne (v * 2 ^ 28)) / 2 ^ 28"
    using g [of "- 5"] by (simp add: power_int_minus)
qed

lemma consts32:
  "round32 (2 / 5) = 13421773 / 2 ^ 25"
  "round32 (9 / 10) = 15099494 / 2 ^ 24"
  "round32 (1 / 5) = 13421773 / 2 ^ 26"
  "round32 (3 / 10) = 10066330 / 2 ^ 25"
  "round32 (4 / 5) = 13421773 / 2 ^ 24"
  "round32 (1 / 20) = 13421773 / 2 ^ 28"
  by (simp_all add: round32_bin rne_def Let_def)


lemmas eval32 = round32_0 round32_bin rne_def Let_def fadd_def fsub_def fmul_def

lemma init32_d:
  "omega (d1 (init round32)) = \<lparr>x = 13421773 / 2 ^ 25, y = 15099494 / 2 ^ 24, z = 13421773 / 2 ^ 26\<rparr>"
  "omega (d2 (init round32)) = \<lparr>x = - (10066330 / 2 ^ 25), y = 13421773 / 2 ^ 26, z = 13421773 / 2 ^ 24\<rparr>"
  by (simp_all add: init_def Let_def make_float3_def consts32)

lemma first_vrel32:
  "mesh_vrel round32 (d1 (init round32)) (d2 (init round32)) = \<lparr>x = 0, y = 1, z = - (9227469 / 2 ^ 23)\<rparr>"
  by (simp add: mesh_vrel_def crossf_def make_float3_def init32_d eval32)

lemma first_correction32_y:
  "y (omega (fst (mesh_correction round32 (d1 (init round32)) (d2 (init round32))))) = 14260633 / 2 ^ 24"
  "y (omega (snd (mesh_correction round32 (d1 (init round32)) (d2 (init round32))))) = 1 / 4"
  by (simp_all add: mesh_correction_def first_vrel32 init32_d softness_def consts32 eval32)

lemma first_correction32_x:
  "x (omega (fst (mesh_correction round32 (d1 (init round32)) (d2 (init round32))))) = 13421773 / 2 ^ 25"
  "x (omega (snd (mesh_correction round32 (d1 (init round32)) (d2 (init round32))))) = - (10066330 / 2 ^ 25)"
  by (simp_all add: mesh_correction_def Let_def init32_d)

lemma vrel_z: "z (mesh_vrel rnd a b) =
  fsub rnd (fsub rnd (fmul rnd (x (omega a)) 0) (fmul rnd (y (omega a)) 1))
           (fsub rnd (fmul rnd (x (omega b)) 0) (fmul rnd (y (omega b)) (- 1)))"
  by (simp add: mesh_vrel_def crossf_def make_float3_def Let_def)

lemma second_vrel32_z:
  "z (mesh_vrel round32 (fst (mesh_correction round32 (d1 (init round32)) (d2 (init round32))))
        (snd (mesh_correction round32 (d1 (init round32)) (d2 (init round32))))) = - (9227468 / 2 ^ 23)"
  by (simp add: vrel_z first_correction32_y first_correction32_x eval32)

text \<open>
  Claim C10, as stated, fails in binary32, on the first launch of the program itself. There
  \<open>vrel.y\<close> is exactly 1, the correction of the \<open>y\<close> components is exactly \<^verbatim>\<open>0.05f\<close>, and the
  two results \<open>0.9f - 0.05f\<close> and \<open>0.2f + 0.05f\<close> are rounded, to \<open>14260633 / 2\<^sup>2\<^sup>4\<close> and to
  \<open>1 / 4\<close>: their sum is \<open>2\<^sup>-\<^sup>2\<^sup>6\<close> less than before, and \<open>vrel.z\<close> recomputed from them is
  \<open>-9227468 / 2\<^sup>2\<^sup>3\<close> where it was \<open>-9227469 / 2\<^sup>2\<^sup>3\<close>.
\<close>

theorem correction_not_conservative_binary32:
  "y (omega (fst (mesh_correction round32 (d1 (init round32)) (d2 (init round32))))) +
   y (omega (snd (mesh_correction round32 (d1 (init round32)) (d2 (init round32)))))
     \<noteq> y (omega (d1 (init round32))) + y (omega (d2 (init round32))) \<and>
   z (mesh_vrel round32 (fst (mesh_correction round32 (d1 (init round32)) (d2 (init round32))))
        (snd (mesh_correction round32 (d1 (init round32)) (d2 (init round32)))))
     \<noteq> z (mesh_vrel round32 (d1 (init round32)) (d2 (init round32)))"
  by (simp add: first_correction32_y second_vrel32_z first_vrel32 init32_d)

lemma mesh_vrel_exact:
  "mesh_vrel exact a b =
     \<lparr>x = 0, y = z (omega a) + z (omega b), z = - (y (omega a) + y (omega b))\<rparr>"
  by (simp add: mesh_vrel_def crossf_def make_float3_def exact_ops Let_def)

lemma mesh_correction_exact:
  "y (omega (fst (mesh_correction exact a b))) = y (omega a) - (z (omega a) + z (omega b)) / 20"
  "z (omega (fst (mesh_correction exact a b))) = z (omega a) + (y (omega a) + y (omega b)) / 20"
  "y (omega (snd (mesh_correction exact a b))) = y (omega b) + (z (omega a) + z (omega b)) / 20"
  "z (omega (snd (mesh_correction exact a b))) = z (omega b) - (y (omega a) + y (omega b)) / 20"
  by (simp_all add: mesh_correction_def mesh_vrel_exact exact_ops exact_consts Let_def
      add_divide_distrib diff_divide_distrib)

text \<open>
  Claim C10, amended. In exact arithmetic the correction of lines 43 to 46 conserves
  \<open>\<omega>A.y + \<omega>B.y\<close> and \<open>\<omega>A.z + \<omega>B.z\<close>, and \<open>vrel\<close> recomputed from the corrected records
  is the \<open>vrel\<close> of the records before.
\<close>

theorem correction_conserves_sums_exact:
  "y (omega (fst (mesh_correction exact a b))) + y (omega (snd (mesh_correction exact a b)))
     = y (omega a) + y (omega b) \<and>
   z (omega (fst (mesh_correction exact a b))) + z (omega (snd (mesh_correction exact a b)))
     = z (omega a) + z (omega b) \<and>
   mesh_vrel exact (fst (mesh_correction exact a b)) (snd (mesh_correction exact a b))
     = mesh_vrel exact a b"
  by (simp add: mesh_vrel_exact mesh_correction_exact)

section \<open>The relative surface velocity under repeated coupling\<close>


lemma damping32: "damping round32 = 16693330 / 2 ^ 24"
  by (simp add: damping_def round32_bin rne_def Let_def)

lemma softness32: "softness round32 = 13421773 / 2 ^ 28"
  by (simp add: softness_def consts32)

lemma slip_def': "slip rnd (a, b) = \<bar>y (mesh_vrel rnd a b)\<bar> + \<bar>z (mesh_vrel rnd a b)\<bar>"
  by (simp add: slip_def Let_def)

lemma opposite_spin32:
  "omega (fst (enforce_mesh round32 spinA spinB)) = \<lparr>x = 0, y = 16693330 / 2 ^ 24, z = 0\<rparr>"
  "omega (snd (enforce_mesh round32 spinA spinB)) = \<lparr>x = 0, y = - (16693330 / 2 ^ 24), z = 0\<rparr>"
  by (simp_all add: mesh_defs spinA_def spinB_def damping32 softness32 maxW_def fminf_def fmaxf_def eval32)

lemma opposite_spin_exact:
  "omega (fst (enforce_mesh exact spinA spinB)) = \<lparr>x = 0, y = 199 / 200, z = 0\<rparr>"
  "omega (snd (enforce_mesh exact spinA spinB)) = \<lparr>x = 0, y = - (199 / 200), z = 0\<rparr>"
  by (simp_all add: mesh_defs spinA_def spinB_def exact_consts exact_ops maxW_def fminf_def fmaxf_def Let_def)

lemma vrel_y: "y (mesh_vrel rnd a b) =
  fsub rnd (fsub rnd (fmul rnd (z (omega a)) 1) (fmul rnd (x (omega a)) 0))
           (fsub rnd (fmul rnd (z (omega b)) (- 1)) (fmul rnd (x (omega b)) 0))"
  by (simp add: mesh_vrel_def crossf_def make_float3_def Let_def)

text \<open>
  Claim C2, as stated, fails for two bodies that spin in opposite senses: their tangential
  angular velocities are distinct, but \<open>vrel\<close> is computed from the sum of the two angular
  velocities, so it is zero before the launch and zero after it, in exact arithmetic and
  in binary32 alike.
\<close>

theorem opposite_spins_slip_not_decreasing:
  "y (omega spinA) \<noteq> y (omega spinB) \<and>
   \<not> slip exact (enforce_mesh exact spinA spinB) < slip exact (spinA, spinB) \<and>
   \<not> slip round32 (enforce_mesh round32 spinA spinB) < slip round32 (spinA, spinB)"
proof -
  have "slip exact (enforce_mesh exact spinA spinB) = 0"
    by (simp add: slip_def mesh_vrel_exact opposite_spin_exact)
  moreover have "slip exact (spinA, spinB) = 0"
    by (simp add: slip_def mesh_vrel_exact spinA_def spinB_def)
  moreover have "slip round32 (enforce_mesh round32 spinA spinB) = 0"
    by (simp add: slip_def vrel_y vrel_z opposite_spin32 eval32)
  moreover have "slip round32 (spinA, spinB) = 0"
    by (simp add: slip_def vrel_y vrel_z spinA_def spinB_def eval32)
  ultimately show ?thesis by (simp add: spinA_def spinB_def)
qed

lemma clamp_sum: "\<bar>min (max u (- 5)) 5 + min (max v (- 5)) 5\<bar> \<le> \<bar>u + v\<bar>" for u v :: real
  by (simp add: min_def max_def abs_if)

lemma enforce_mesh_exact:
  "y (omega (fst (enforce_mesh exact a b))) =
     min (max ((y (omega a) - (z (omega a) + z (omega b)) / 20) * (199 / 200)) (- 5)) 5"
  "z (omega (fst (enforce_mesh exact a b))) =
     min (max ((z (omega a) + (y (omega a) + y (omega b)) / 20) * (199 / 200)) (- 5)) 5"
  "y (omega (snd (enforce_mesh exact a b))) =
     min (max ((y (omega b) + (z (omega a) + z (omega b)) / 20) * (199 / 200)) (- 5)) 5"
  "z (omega (snd (enforce_mesh exact a b))) =
     min (max ((z (omega b) - (y (omega a) + y (omega b)) / 20) * (199 / 200)) (- 5)) 5"
  using mesh_correction_exact [of a b]
  by (simp_all add: enforce_mesh_def mesh_clamp_def mesh_damping_def exact_ops exact_consts
      maxW_def fminf_def fmaxf_def Let_def)

lemma slip_exact: "slip exact (a, b) = \<bar>z (omega a) + z (omega b)\<bar> + \<bar>y (omega a) + y (omega b)\<bar>"
  by (simp add: slip_def mesh_vrel_exact)

lemma slip_contracts:
  "slip exact (enforce_mesh exact a b) \<le> 199 / 200 * slip exact (a, b)"
proof -
  define p where "p = enforce_mesh exact a b"
  have "slip exact p = \<bar>z (omega (fst p)) + z (omega (snd p))\<bar> + \<bar>y (omega (fst p)) + y (omega (snd p))\<bar>"
    using slip_exact [of "fst p" "snd p"] by simp
  moreover have "\<bar>z (omega (fst p)) + z (omega (snd p))\<bar> \<le> 199 / 200 * \<bar>z (omega a) + z (omega b)\<bar>"
  proof -
    have "\<bar>z (omega (fst p)) + z (omega (snd p))\<bar>
        \<le> \<bar>(z (omega a) + (y (omega a) + y (omega b)) / 20) * (199 / 200)
           + (z (omega b) - (y (omega a) + y (omega b)) / 20) * (199 / 200)\<bar>"
      unfolding p_def enforce_mesh_exact by (rule clamp_sum)
    also have "\<dots> = \<bar>(z (omega a) + z (omega b)) * (199 / 200)\<bar>"
      by (rule arg_cong [where f = abs]) argo
    also have "\<dots> = 199 / 200 * \<bar>z (omega a) + z (omega b)\<bar>" by argo
    finally show ?thesis .
  qed
  moreover have "\<bar>y (omega (fst p)) + y (omega (snd p))\<bar> \<le> 199 / 200 * \<bar>y (omega a) + y (omega b)\<bar>"
  proof -
    have "\<bar>y (omega (fst p)) + y (omega (snd p))\<bar>
        \<le> \<bar>(y (omega a) - (z (omega a) + z (omega b)) / 20) * (199 / 200)
           + (y (omega b) + (z (omega a) + z (omega b)) / 20) * (199 / 200)\<bar>"
      unfolding p_def enforce_mesh_exact by (rule clamp_sum)
    also have "\<dots> = \<bar>(y (omega a) + y (omega b)) * (199 / 200)\<bar>"
      by (rule arg_cong [where f = abs]) argo
    also have "\<dots> = 199 / 200 * \<bar>y (omega a) + y (omega b)\<bar>" by argo
    finally show ?thesis .
  qed
  ultimately have "slip exact p \<le> 199 / 200 * \<bar>z (omega a) + z (omega b)\<bar>
      + 199 / 200 * \<bar>y (omega a) + y (omega b)\<bar>"
    by (simp only: add_mono)
  then show ?thesis by (simp only: p_def slip_exact distrib_left)
qed

lemma slip_iter: "slip exact (mesh_iter exact n (a, b)) \<le> (199 / 200) ^ n * slip exact (a, b)"
proof (induction n)
  case 0
  show ?case by (simp add: mesh_iter_def)
next
  case (Suc n)
  define p where "p = mesh_iter exact n (a, b)"
  have "slip exact (mesh_iter exact (Suc n) (a, b)) = slip exact (enforce_mesh exact (fst p) (snd p))"
    by (simp add: mesh_iter_def p_def)
  also have "\<dots> \<le> 199 / 200 * slip exact (fst p, snd p)" by (rule slip_contracts)
  also have "\<dots> \<le> 199 / 200 * ((199 / 200) ^ n * slip exact (a, b))"
    using Suc by (simp add: p_def)
  finally show ?case by simp
qed

lemma slip_nonneg: "0 \<le> slip rnd p"
  by (simp add: slip_def Let_def)

text \<open>
  Claim C2, amended. In exact arithmetic \<open>|vrel.y| + |vrel.z|\<close> is
  \<open>|\<omega>A.z + \<omega>B.z| + |\<omega>A.y + \<omega>B.y|\<close>; after \<open>n\<close> launches in a row it is at most
  \<open>0.995\<^sup>n\<close> times what it was, and one launch makes it strictly smaller whenever it is not
  zero.
\<close>

theorem slip_decreases_exact:
  "slip exact (a, b) = \<bar>z (omega a) + z (omega b)\<bar> + \<bar>y (omega a) + y (omega b)\<bar> \<and>
   slip exact (mesh_iter exact n (a, b)) \<le> (199 / 200) ^ n * slip exact (a, b) \<and>
   (slip exact (a, b) \<noteq> 0 \<longrightarrow> slip exact (enforce_mesh exact a b) < slip exact (a, b))"
proof (intro conjI impI)
  show "slip exact (a, b) = \<bar>z (omega a) + z (omega b)\<bar> + \<bar>y (omega a) + y (omega b)\<bar>"
    by (rule slip_exact)
  show "slip exact (mesh_iter exact n (a, b)) \<le> (199 / 200) ^ n * slip exact (a, b)"
    by (rule slip_iter)
  assume "slip exact (a, b) \<noteq> 0"
  with slip_nonneg [of exact "(a, b)"] have "0 < slip exact (a, b)" by simp
  with slip_contracts [of a b] show "slip exact (enforce_mesh exact a b) < slip exact (a, b)"
    by simp
qed

theorem slip_decreases_exact_witness:
  "slip exact (spinA, spinA) = 2 \<and> slip exact (enforce_mesh exact spinA spinA) < 2"
  using slip_decreases_exact [of spinA spinA 0]
  by (simp add: slip_exact spinA_def)

section \<open>The orientations in exact arithmetic\<close>

text \<open>
  In exact arithmetic no normalisation ever divides by zero and every orientation has norm
  exactly 1: the norm of a Hamilton product is the product of the norms, the \<open>x\<close>
  components of the two angular velocities are only ever damped and clamped, so they stay
  nonzero, and normalising a quaternion of nonzero norm gives a unit quaternion.
\<close>

lemma euclid_norm_hamilton: "euclid_norm (hamilton a b) = euclid_norm a * euclid_norm b"
proof -
  have "(qw (hamilton a b))\<^sup>2 + (qx (hamilton a b))\<^sup>2 + (qy (hamilton a b))\<^sup>2 + (qz (hamilton a b))\<^sup>2
      = ((qw a)\<^sup>2 + (qx a)\<^sup>2 + (qy a)\<^sup>2 + (qz a)\<^sup>2) * ((qw b)\<^sup>2 + (qx b)\<^sup>2 + (qy b)\<^sup>2 + (qz b)\<^sup>2)"
    by (simp add: hamilton_def vec_part_def dot3_def cross3_def Let_def power2_eq_square algebra_simps)
  then show ?thesis by (simp add: euclid_norm_def real_sqrt_mult)
qed

lemma euclid_norm_pure: "x om \<noteq> 0 \<Longrightarrow> h \<noteq> 0 \<Longrightarrow> euclid_norm (pure_quat om h) \<noteq> 0"
proof -
  assume "x om \<noteq> 0" "h \<noteq> 0"
  then have "0 < (x om * h)\<^sup>2" by simp
  moreover have "0 \<le> (y om * h)\<^sup>2" "0 \<le> (z om * h)\<^sup>2" by simp_all
  ultimately have "0 < (x om * h)\<^sup>2 + (y om * h)\<^sup>2 + (z om * h)\<^sup>2" by linarith
  then show ?thesis by (simp add: euclid_norm_def pure_quat_def)
qed

lemma normalize_spec_unit:
  assumes "euclid_norm a \<noteq> 0"
  shows "\<exists>r. normalize_spec a = Some r \<and> euclid_norm r = 1"
proof -
  define n where "n = euclid_norm a"
  have n0: "n \<noteq> 0" "0 \<le> n" using assms by (simp_all add: n_def euclid_norm_def)
  have nn: "n\<^sup>2 = (qw a)\<^sup>2 + (qx a)\<^sup>2 + (qy a)\<^sup>2 + (qz a)\<^sup>2"
    by (simp add: n_def euclid_norm_def)
  have "(qw a / n)\<^sup>2 + (qx a / n)\<^sup>2 + (qy a / n)\<^sup>2 + (qz a / n)\<^sup>2
      = ((qw a)\<^sup>2 + (qx a)\<^sup>2 + (qy a)\<^sup>2 + (qz a)\<^sup>2) / n\<^sup>2"
    by (simp add: power_divide add_divide_distrib)
  also have "\<dots> = n\<^sup>2 / n\<^sup>2" by (simp only: nn)
  also have "\<dots> = 1" using n0 by simp
  finally have "euclid_norm \<lparr>qw = qw a / n, qx = qx a / n, qy = qy a / n, qz = qz a / n\<rparr> = 1"
    by (simp add: euclid_norm_def)
  then show ?thesis using n0 by (simp add: normalize_spec_def n_def)
qed

lemma integrate_quat_exact:
  "integrate_quat exact q om h = normalize_spec (hamilton q (pure_quat om h))"
  by (simp add: integrate_quat_def quat_mul_exact quat_norm_exact pure_quat_def exact_ops Let_def)

lemma integrate_quat_exact_unit:
  assumes "euclid_norm q = 1" "x om \<noteq> 0"
  shows "\<exists>r. integrate_quat exact q om (dt exact) = Some r \<and> euclid_norm r = 1"
proof -
  have "euclid_norm (hamilton q (pure_quat om (1 / 100))) \<noteq> 0"
    using assms euclid_norm_pure [of om "1 / 100"] by (simp add: euclid_norm_hamilton)
  from normalize_spec_unit [OF this] show ?thesis
    by (simp add: integrate_quat_exact exact_consts)
qed

lemma damp_clamp_exact_nonzero: "v \<noteq> 0 \<Longrightarrow> damp_clamp exact v \<noteq> 0"
  by (simp add: damp_clamp_def exact_ops exact_consts maxW_def fminf_def fmaxf_def min_def max_def)

lemma controller_x_nonzero:
  assumes "x (omega (d1 s)) \<noteq> 0" "x (omega (d2 s)) \<noteq> 0"
  shows "x (omega (d1 (controller exact s))) \<noteq> 0 \<and> x (omega (d2 (controller exact s))) \<noteq> 0"
proof (cases "phase_of exact s")
  case APPROACHING
  from controller_approaching [OF this] assms show ?thesis by simp
next
  case MESHED
  from controller_meshed [OF this] assms show ?thesis
    by (simp add: enforce_mesh_x damp_clamp_exact_nonzero)
qed

lemma frame_q_controller:
  "q1 (frame rnd s) = Option.bind (q1 s) (\<lambda>q. integrate_quat rnd q (omega (d1 (controller rnd s))) (dt rnd))"
  "q2 (frame rnd s) = Option.bind (q2 s) (\<lambda>q. integrate_quat rnd q (omega (d2 (controller rnd s))) (dt rnd))"
  by (simp_all add: frame_def integrate_def copy_out_def controller_def Let_def)

lemma spinning_frame: "spinning s \<Longrightarrow> spinning (frame exact s)"
proof -
  assume s: "spinning s"
  then obtain r1 r2 where r: "q1 s = Some r1" "euclid_norm r1 = 1" "q2 s = Some r2" "euclid_norm r2 = 1"
    by (auto simp add: spinning_def)
  from s have "x (omega (d1 s)) \<noteq> 0" "x (omega (d2 s)) \<noteq> 0" by (simp_all add: spinning_def)
  from controller_x_nonzero [OF this] have g: "x (omega (d1 (controller exact s))) \<noteq> 0" "x (omega (d2 (controller exact s))) \<noteq> 0"
    by simp_all
  from integrate_quat_exact_unit [OF r(2) g(1)] integrate_quat_exact_unit [OF r(4) g(2)] g
  show ?thesis by (simp add: spinning_def frame_q_controller r frame_fields)
qed

lemma spinning_init: "spinning (init exact)"
  by (simp add: spinning_def init_def Let_def make_float3_def euclid_norm_def exact_def)

lemma spinning_frames: "spinning (frames exact n (init exact))"
  by (induction n) (simp_all add: frames_0 frames_Suc spinning_init spinning_frame)


lemma orientation_unit_exact:
  "(\<exists>r. q1 (frames exact n (init exact)) = Some r \<and> euclid_norm r = 1) \<and>
   (\<exists>r. q2 (frames exact n (init exact)) = Some r \<and> euclid_norm r = 1)"
  using spinning_frames [of n] by (simp add: spinning_def)

section \<open>The orientations in binary32\<close>

text \<open>
  In binary32 the angular velocities decay until the squares that \<^verbatim>\<open>quat_norm\<close> adds up
  underflow to zero. The proof bounds the rounding error of every operation by
  \<open>eps32 |v| + eta32\<close>, shows that one launch of the kernel multiplies \<open>lyap\<close> by at most
  0.9986 up to a multiple of \<open>eta32\<close>, that the components of a normalised quaternion are
  at most 17 in absolute value, and that the product of such a quaternion with velocities
  below \<open>2\<^sup>-\<^sup>1\<^sup>0\<^sup>0\<close> has components whose squares round to zero.
\<close>

subsection \<open>The error of one rounding\<close>

lemma rne_error: "\<bar>of_int (rne r) - r\<bar> \<le> 1 / 2"
  by (simp add: rne_def Let_def)

lemma rne_nonneg: "0 \<le> r \<Longrightarrow> 0 \<le> rne r"
  by (simp add: rne_def Let_def)

lemma ulp_pos: "0 < (2::real) powi ulp_exp v"
  by simp

lemma ulp_ge: "(2::real) powi (- 149) \<le> 2 powi ulp_exp v"
  by (rule power_int_increasing) (simp_all add: ulp_exp_def)

lemma ulp_le:
  assumes "v \<noteq> 0"
  shows "2 powi ulp_exp v \<le> \<bar>v\<bar> / 2 ^ 23 + 1 / 2 ^ 149"
proof -
  define L where "L = \<lfloor>log 2 \<bar>v\<bar>\<rfloor>"
  have "real_of_int L \<le> log 2 \<bar>v\<bar>" by (simp add: L_def)
  then have "2 powr real_of_int L \<le> 2 powr log 2 \<bar>v\<bar>" by simp
  then have 1: "2 powi L \<le> \<bar>v\<bar>" using assms by (simp add: powr_real_of_int')
  have "(2::real) powi (L - 23) = 2 powi L / 2 ^ 23"
    by (simp add: power_int_diff)
  then have 2: "(2::real) powi (L - 23) \<le> \<bar>v\<bar> / 2 ^ 23" using 1 by (simp add: divide_right_mono)
  have 3: "(2::real) powi (- 149) = 1 / 2 ^ 149" by (simp add: power_int_minus divide_simps)
  show ?thesis
  proof (cases "L - 23 \<le> - 149")
    case True
    then have "ulp_exp v = - 149" by (simp add: ulp_exp_def L_def)
    then show ?thesis using 3 by simp
  next
    case False
    then have "ulp_exp v = L - 23" by (simp add: ulp_exp_def L_def)
    then show ?thesis using 2 by simp
  qed
qed

lemma round32_error: "\<bar>round32 v - v\<bar> \<le> eps32 * \<bar>v\<bar> + eta32"
proof (cases "v = 0")
  case True
  then show ?thesis by (simp add: round32_def eps32_def eta32_def)
next
  case False
  define u :: real where "u = 2 powi ulp_exp v"
  have u0: "0 < u" by (simp add: u_def)
  have "round32 v - v = (of_int (rne (v / u)) - v / u) * u"
    using False u0 by (simp add: round32_def u_def algebra_simps)
  then have "\<bar>round32 v - v\<bar> = \<bar>of_int (rne (v / u)) - v / u\<bar> * u"
    using u0 by (simp add: abs_mult)
  also have "\<dots> \<le> 1 / 2 * u"
    using rne_error [of "v / u"] u0 by (intro mult_right_mono) simp_all
  also have "\<dots> \<le> 1 / 2 * (\<bar>v\<bar> / 2 ^ 23 + 1 / 2 ^ 149)"
    using ulp_le [OF False] by (simp add: u_def)
  also have "\<dots> = eps32 * \<bar>v\<bar> + eta32"
    by (simp add: eps32_def eta32_def)
  finally show ?thesis .
qed

lemma round32_nonneg: "0 \<le> v \<Longrightarrow> 0 \<le> round32 v"
  by (simp add: round32_def rne_nonneg)

lemma round32_tiny:
  assumes "\<bar>v\<bar> < 1 / 2 ^ 150"
  shows "round32 v = 0"
proof (cases "v = 0")
  case True
  then show ?thesis by (simp add: round32_def)
next
  case False
  have p: "(2::real) powi (- 149) = 1 / 2 ^ 149" by (simp add: power_int_minus divide_simps)
  have "\<lfloor>log 2 \<bar>v\<bar>\<rfloor> \<le> - 126"
  proof -
    have "\<bar>v\<bar> < 2 powr (- 126)" 
    proof -
      have "(1::real) / 2 ^ 150 \<le> 1 / 2 ^ 126" by simp
      moreover have "(2::real) powr (- 126) = 1 / 2 ^ 126"
        using powr_real_of_int' [of 2 "- 126"] by (simp add: power_int_minus divide_simps)
      ultimately show ?thesis using assms by linarith
    qed
    then have "log 2 \<bar>v\<bar> < - 126" using False by (simp add: log_less_iff)
    then show ?thesis by linarith
  qed
  then have "\<lfloor>log 2 \<bar>v\<bar>\<rfloor> - 23 \<le> - 149" by linarith
  then have e: "ulp_exp v = - 149" unfolding ulp_exp_def by (rule max_absorb2)
  have "\<bar>v / 2 powi (- 149) - of_int 0\<bar> < 1 / 2"
    using assms by (simp add: p abs_mult) 
  from rne_near [OF this] show ?thesis using False by (simp add: round32_def e)
qed

lemma round32_least:
  assumes "round32 v \<noteq> 0"
  shows "1 / 2 ^ 149 \<le> \<bar>round32 v\<bar>"
proof -
  have v: "v \<noteq> 0" using assms by (auto simp add: round32_def)
  define m where "m = rne (v / 2 powi ulp_exp v)"
  have r: "round32 v = of_int m * 2 powi ulp_exp v" using v by (simp add: round32_def m_def)
  with assms have "m \<noteq> 0" by auto
  then have "1 \<le> \<bar>real_of_int m\<bar>" by (simp add: abs_if)
  then have a: "1 * 2 powi ulp_exp v \<le> \<bar>real_of_int m\<bar> * 2 powi ulp_exp v"
    by (intro mult_right_mono) simp_all
  have "(2::real) powi (- 149) = 1 / 2 ^ 149" by (simp add: power_int_minus divide_simps)
  with ulp_ge [of v] have b: "1 / 2 ^ 149 \<le> (2::real) powi ulp_exp v" by simp
  have "\<bar>round32 v\<bar> = \<bar>real_of_int m\<bar> * 2 powi ulp_exp v" by (simp add: r abs_mult)
  with a b show ?thesis by linarith
qed


subsection \<open>Chains of roundings\<close>

text \<open>
  With \<open>u = eps32 V + eta32\<close> and all quantities of size at most \<open>V\<close>, a value within
  \<open>k u\<close> of its target is within \<open>(2 k + 1) u\<close> of it after one more rounding.
\<close>

lemma R_step:
  assumes "\<bar>v - w\<bar> \<le> k * u" "\<bar>w\<bar> \<le> V" "0 \<le> k" "u = eps32 * V + eta32" "0 \<le> V"
  shows "\<bar>round32 v - w\<bar> \<le> (2 * k + 1) * u"
proof -
  have u0: "0 \<le> u" using assms(4,5) by (simp add: eps32_def eta32_def)
  have ku: "0 \<le> k * u" using assms(3) u0 by simp
  have e: "0 \<le> eps32" "eps32 \<le> 1" by (simp_all add: eps32_def)
  have "\<bar>v\<bar> \<le> V + k * u" using assms(1,2) by linarith
  then have "eps32 * \<bar>v\<bar> \<le> eps32 * (V + k * u)" using e by (intro mult_left_mono) simp_all
  moreover have "eps32 * (k * u) \<le> 1 * (k * u)" using e ku by (intro mult_right_mono) simp_all
  ultimately have "eps32 * \<bar>v\<bar> + eta32 \<le> u + k * u"
    using assms(4) by (simp add: algebra_simps)
  with round32_error [of v] have "\<bar>round32 v - v\<bar> \<le> u + k * u" by linarith
  with assms(1) have "\<bar>round32 v - w\<bar> \<le> u + k * u + k * u" by linarith
  then show ?thesis by (simp add: algebra_simps)
qed

lemma R_num:
  assumes "\<bar>v - w\<bar> \<le> k * u" "\<bar>w\<bar> \<le> V" "0 \<le> k" "u = eps32 * V + eta32" "0 \<le> V"
    and "k' = 2 * k + 1"
  shows "\<bar>round32 v - w\<bar> \<le> k' * u"
  using R_step [OF assms(1-5)] assms(6) by simp

lemma update_step:
  assumes v: "\<bar>v - T\<bar> \<le> 13 * u" and u: "u = eps32 * V + eta32" and V: "0 \<le> V"
    and mag: "\<bar>c\<bar> + \<bar>T\<bar> \<le> V" and s: "0 \<le> s" "s \<le> 1" and D: "0 \<le> D" "D \<le> 1"
  shows "\<bar>round32 (round32 (c - round32 (v * s)) * D) - D * (c - s * T)\<bar> \<le> 111 * u"
    and "\<bar>round32 (round32 (c + round32 (v * s)) * D) - D * (c + s * T)\<bar> \<le> 111 * u"
proof -
  have sT: "\<bar>s * T\<bar> \<le> \<bar>T\<bar>"
  proof -
    have "\<bar>s * T\<bar> = s * \<bar>T\<bar>" using s by (simp add: abs_mult)
    also have "\<dots> \<le> 1 * \<bar>T\<bar>" using s by (intro mult_right_mono) simp_all
    finally show ?thesis by simp
  qed
  have "\<bar>v * s - s * T\<bar> = s * \<bar>v - T\<bar>"
  proof -
    have "v * s - s * T = s * (v - T)" by (simp add: algebra_simps)
    then show ?thesis using s by (simp add: abs_mult)
  qed
  also have "\<dots> \<le> 1 * \<bar>v - T\<bar>" using s by (intro mult_right_mono) simp_all
  finally have vs: "\<bar>v * s - s * T\<bar> \<le> 13 * u" using v by simp
  have sTV: "\<bar>s * T\<bar> \<le> V" using sT mag by linarith
  have d: "\<bar>round32 (v * s) - s * T\<bar> \<le> 27 * u"
    by (rule R_num [OF vs sTV _ u V]) simp_all
  have scale: "\<bar>r * D - D * w\<bar> \<le> k * u" if "\<bar>r - w\<bar> \<le> k * u" for r w k
  proof -
    have "r * D - D * w = D * (r - w)" by (simp add: algebra_simps)
    then have "\<bar>r * D - D * w\<bar> = D * \<bar>r - w\<bar>" using D by (simp add: abs_mult)
    also have "\<dots> \<le> 1 * \<bar>r - w\<bar>" using D by (intro mult_right_mono) simp_all
    finally show ?thesis using that by simp
  qed
  have Dw: "\<bar>D * w\<bar> \<le> V" if "\<bar>w\<bar> \<le> V" for w
  proof -
    have "\<bar>D * w\<bar> = D * \<bar>w\<bar>" using D by (simp add: abs_mult)
    also have "\<dots> \<le> 1 * \<bar>w\<bar>" using D by (intro mult_right_mono) simp_all
    finally show ?thesis using that by simp
  qed
  have m1: "\<bar>c - s * T\<bar> \<le> V" "\<bar>c + s * T\<bar> \<le> V" using sT mag by linarith+
  have a1: "\<bar>(c - round32 (v * s)) - (c - s * T)\<bar> \<le> 27 * u" using d by simp
  have a2: "\<bar>round32 (c - round32 (v * s)) - (c - s * T)\<bar> \<le> 55 * u"
    by (rule R_num [OF a1 m1(1) _ u V]) simp_all
  have a3: "\<bar>round32 (c - round32 (v * s)) * D - D * (c - s * T)\<bar> \<le> 55 * u"
    using a2 by (rule scale)
  show "\<bar>round32 (round32 (c - round32 (v * s)) * D) - D * (c - s * T)\<bar> \<le> 111 * u"
    by (rule R_num [OF a3 Dw [OF m1(1)] _ u V]) simp_all
  have b1: "\<bar>(c + round32 (v * s)) - (c + s * T)\<bar> \<le> 27 * u" using d by simp
  have b2: "\<bar>round32 (c + round32 (v * s)) - (c + s * T)\<bar> \<le> 55 * u"
    by (rule R_num [OF b1 m1(2) _ u V]) simp_all
  have b3: "\<bar>round32 (c + round32 (v * s)) * D - D * (c + s * T)\<bar> \<le> 55 * u"
    using b2 by (rule scale)
  show "\<bar>round32 (round32 (c + round32 (v * s)) * D) - D * (c + s * T)\<bar> \<le> 111 * u"
    by (rule R_num [OF b3 Dw [OF m1(2)] _ u V]) simp_all
qed

lemma vrel_step:
  assumes u: "u = eps32 * V + eta32" and V: "0 \<le> V"
    and mag: "\<bar>p\<bar> \<le> V" "\<bar>q\<bar> \<le> V" "\<bar>p + q\<bar> \<le> V"
  shows "\<bar>round32 (round32 (round32 p) - round32 (round32 (- q))) - (p + q)\<bar> \<le> 13 * u"
    and "\<bar>round32 (round32 (- round32 p) - round32 (- round32 (- q))) - (- (p + q))\<bar> \<le> 13 * u"
proof -
  have mp: "\<bar>- p\<bar> \<le> V" "\<bar>- q\<bar> \<le> V" "\<bar>- (p + q)\<bar> \<le> V" using mag by simp_all
  have p0: "\<bar>p - p\<bar> \<le> 0 * u" and q0: "\<bar>- q - (- q)\<bar> \<le> 0 * u" by simp_all
  have p1: "\<bar>round32 p - p\<bar> \<le> 1 * u"
    by (rule R_num [OF p0 mag(1) _ u V]) simp_all
  have q1: "\<bar>round32 (- q) - (- q)\<bar> \<le> 1 * u"
    by (rule R_num [OF q0 mp(2) _ u V]) simp_all
  have p2: "\<bar>round32 (round32 p) - p\<bar> \<le> 3 * u"
    by (rule R_num [OF p1 mag(1) _ u V]) simp_all
  have q2: "\<bar>round32 (round32 (- q)) - (- q)\<bar> \<le> 3 * u"
    by (rule R_num [OF q1 mp(2) _ u V]) simp_all
  have s1: "\<bar>(round32 (round32 p) - round32 (round32 (- q))) - (p + q)\<bar> \<le> 6 * u"
    using p2 q2 by linarith
  show "\<bar>round32 (round32 (round32 p) - round32 (round32 (- q))) - (p + q)\<bar> \<le> 13 * u"
    by (rule R_num [OF s1 mag(3) _ u V]) simp_all
  have p1': "\<bar>- round32 p - (- p)\<bar> \<le> 1 * u" using p1 by simp
  have p3: "\<bar>round32 (- round32 p) - (- p)\<bar> \<le> 3 * u"
    by (rule R_num [OF p1' mp(1) _ u V]) simp_all
  have q1': "\<bar>- round32 (- q) - q\<bar> \<le> 1 * u" using q1 by linarith
  have q3: "\<bar>round32 (- round32 (- q)) - q\<bar> \<le> 3 * u"
    by (rule R_num [OF q1' mag(2) _ u V]) simp_all
  have s2: "\<bar>(round32 (- round32 p) - round32 (- round32 (- q))) - (- (p + q))\<bar> \<le> 6 * u"
    using p3 q3 by linarith
  show "\<bar>round32 (round32 (- round32 p) - round32 (- round32 (- q))) - (- (p + q))\<bar> \<le> 13 * u"
    by (rule R_num [OF s2 mp(3) _ u V]) simp_all
qed


subsection \<open>One launch of the kernel\<close>

lemma clampW_sum: "\<bar>clampW u + clampW v\<bar> \<le> \<bar>u + v\<bar>"
  by (simp add: clampW_def min_def max_def abs_if)

lemma clampW_diff: "\<bar>clampW u - clampW v\<bar> \<le> \<bar>u - v\<bar>"
  by (simp add: clampW_def min_def max_def abs_if)

lemma clampW_abs: "\<bar>clampW u\<bar> \<le> \<bar>u\<bar>"
  by (simp add: clampW_def min_def max_def abs_if)

lemma kernel32_components:
  fixes a b :: SphereGPU
  defines "vy \<equiv> round32 (round32 (round32 (z (omega a))) - round32 (round32 (- z (omega b))))"
    and "vz \<equiv> round32 (round32 (- round32 (y (omega a))) - round32 (- round32 (- y (omega b))))"
  shows "x (omega (fst (enforce_mesh round32 a b))) = clampW (round32 (x (omega a) * (8346665 / 8388608)))"
    and "x (omega (snd (enforce_mesh round32 a b))) = clampW (round32 (x (omega b) * (8346665 / 8388608)))"
    and "y (omega (fst (enforce_mesh round32 a b))) =
      clampW (round32 (round32 (y (omega a) - round32 (vy * (13421773 / 268435456))) * (8346665 / 8388608)))"
    and "y (omega (snd (enforce_mesh round32 a b))) =
      clampW (round32 (round32 (y (omega b) + round32 (vy * (13421773 / 268435456))) * (8346665 / 8388608)))"
    and "z (omega (fst (enforce_mesh round32 a b))) =
      clampW (round32 (round32 (z (omega a) - round32 (vz * (13421773 / 268435456))) * (8346665 / 8388608)))"
    and "z (omega (snd (enforce_mesh round32 a b))) =
      clampW (round32 (round32 (z (omega b) + round32 (vz * (13421773 / 268435456))) * (8346665 / 8388608)))"
  unfolding vy_def vz_def
  by (simp_all add: mesh_defs clampW_def damping32 softness32 maxW_def fminf_def fmaxf_def
      fadd_def fsub_def fmul_def round32_0 Let_def)


lemma decay_pair:
  fixes c1 c2 T r1 r2 u :: real
  assumes e1: "\<bar>r1 - 8346665 / 8388608 * (c1 - 13421773 / 268435456 * T)\<bar> \<le> 111 * u"
    and e2: "\<bar>r2 - 8346665 / 8388608 * (c2 + 13421773 / 268435456 * T)\<bar> \<le> 111 * u"
  shows "\<bar>clampW r1 + clampW r2\<bar> \<le> 8346665 / 8388608 * \<bar>c1 + c2\<bar> + 222 * u"
    and "\<bar>clampW r1 - clampW r2\<bar> \<le> 8346665 / 8388608 * \<bar>c1 - c2\<bar> + 1 / 10 * \<bar>T\<bar> + 222 * u"
proof -
  define w1 where "w1 = 8346665 / 8388608 * (c1 - 13421773 / 268435456 * T)"
  define w2 where "w2 = 8346665 / 8388608 * (c2 + 13421773 / 268435456 * T)"
  have f: "\<bar>r1 - w1\<bar> \<le> 111 * u" "\<bar>r2 - w2\<bar> \<le> 111 * u" using e1 e2 by (simp_all add: w1_def w2_def)
  have "w1 + w2 = 8346665 / 8388608 * (c1 + c2)" unfolding w1_def w2_def by argo
  then have s: "\<bar>w1 + w2\<bar> = 8346665 / 8388608 * \<bar>c1 + c2\<bar>" by argo
  have "w1 - w2 = 8346665 / 8388608 * (c1 - c2) - 2 * (8346665 / 8388608) * (13421773 / 268435456) * T"
    unfolding w1_def w2_def by argo
  then have d: "\<bar>w1 - w2\<bar> \<le> 8346665 / 8388608 * \<bar>c1 - c2\<bar> + 1 / 10 * \<bar>T\<bar>" by argo
  have "\<bar>r1 + r2\<bar> \<le> \<bar>w1 + w2\<bar> + 222 * u" using f by argo
  with clampW_sum [of r1 r2] s
  show "\<bar>clampW r1 + clampW r2\<bar> \<le> 8346665 / 8388608 * \<bar>c1 + c2\<bar> + 222 * u"
    by linarith
  have "\<bar>r1 - r2\<bar> \<le> \<bar>w1 - w2\<bar> + 222 * u" using f by argo
  with clampW_diff [of r1 r2] d
  show "\<bar>clampW r1 - clampW r2\<bar> \<le> 8346665 / 8388608 * \<bar>c1 - c2\<bar> + 1 / 10 * \<bar>T\<bar> + 222 * u"
    by linarith
qed

lemma decay_x:
  assumes u: "u = eps32 * V + eta32" and V: "0 \<le> V" and m: "\<bar>c\<bar> \<le> V"
  shows "\<bar>clampW (round32 (c * (8346665 / 8388608)))\<bar> \<le> 8346665 / 8388608 * \<bar>c\<bar> + u"
proof -
  define w where "w = c * (8346665 / 8388608)"
  have 0: "\<bar>w - w\<bar> \<le> 0 * u" by simp
  have w: "\<bar>w\<bar> = 8346665 / 8388608 * \<bar>c\<bar>" unfolding w_def by argo
  then have 1: "\<bar>w\<bar> \<le> V" using m by argo
  have "\<bar>round32 w - w\<bar> \<le> 1 * u"
    by (rule R_num [OF 0 1 _ u V]) simp_all
  then have "\<bar>round32 w\<bar> \<le> \<bar>w\<bar> + u" by argo
  with clampW_abs [of "round32 w"] w show ?thesis unfolding w_def by linarith
qed


lemma eps32_num: "eps32 = 1 / 16777216" by (simp add: eps32_def)
lemma eta32_pos: "0 < eta32" by (simp add: eta32_def)

lemma lyap_step: "lyap (enforce_mesh round32 a b) \<le> 4993 / 5000 * lyap (a, b) + 18206 * eta32"
proof -
  define ax ay az where "ax = x (omega a)" and "ay = y (omega a)" and "az = z (omega a)"
  define bx "by" bz where "bx = x (omega b)" and "by = y (omega b)" and "bz = z (omega b)"
  define A B P Q X Y where "A = \<bar>ay - by\<bar>" and "B = \<bar>az - bz\<bar>" and "P = \<bar>ay + by\<bar>"
    and "Q = \<bar>az + bz\<bar>" and "X = \<bar>ax\<bar>" and "Y = \<bar>bx\<bar>"
  define V where "V = A + B + 40 * (P + Q) + X + Y"
  define u where "u = eps32 * V + eta32"
  have V: "lyap (a, b) = V"
    by (simp add: lyap_def V_def A_def B_def P_def Q_def X_def Y_def ax_def ay_def az_def
        bx_def by_def bz_def Let_def)
  have nn: "0 \<le> A" "0 \<le> B" "0 \<le> P" "0 \<le> Q" "0 \<le> X" "0 \<le> Y"
    by (simp_all add: A_def B_def P_def Q_def X_def Y_def)
  then have V0: "0 \<le> V" by (simp add: V_def)
  have u: "u = eps32 * V + eta32" by (simp add: u_def)
  have may: "\<bar>ay\<bar> \<le> (A + P) / 2" and mby: "\<bar>by\<bar> \<le> (A + P) / 2"
    unfolding A_def P_def by argo+
  have maz: "\<bar>az\<bar> \<le> (B + Q) / 2" and mbz: "\<bar>bz\<bar> \<le> (B + Q) / 2"
    unfolding B_def Q_def by argo+
  have m: "\<bar>ay\<bar> \<le> V" "\<bar>by\<bar> \<le> V" "\<bar>az\<bar> \<le> V" "\<bar>bz\<bar> \<le> V" "\<bar>ax\<bar> \<le> V" "\<bar>bx\<bar> \<le> V"
    "\<bar>ay + by\<bar> \<le> V" "\<bar>az + bz\<bar> \<le> V"
    "\<bar>ay\<bar> + \<bar>az + bz\<bar> \<le> V" "\<bar>by\<bar> + \<bar>az + bz\<bar> \<le> V"
    "\<bar>az\<bar> + \<bar>- (ay + by)\<bar> \<le> V" "\<bar>bz\<bar> + \<bar>- (ay + by)\<bar> \<le> V"
    using may mby maz mbz nn
    by (simp_all add: V_def P_def [symmetric] Q_def [symmetric] X_def [symmetric] Y_def [symmetric])
  define vy where "vy = round32 (round32 (round32 az) - round32 (round32 (- bz)))"
  define vz where "vz = round32 (round32 (- round32 ay) - round32 (- round32 (- by)))"
  have vy: "\<bar>vy - (az + bz)\<bar> \<le> 13 * u" unfolding vy_def
    by (rule vrel_step(1) [OF u V0 m(3) m(4) m(8)])
  have vz: "\<bar>vz - (- (ay + by))\<bar> \<le> 13 * u" unfolding vz_def
    by (rule vrel_step(2) [OF u V0 m(1) m(2) m(7)])
  define ay' by' az' bz' ax' bx' where
    "ay' = y (omega (fst (enforce_mesh round32 a b)))" and
    "by' = y (omega (snd (enforce_mesh round32 a b)))" and
    "az' = z (omega (fst (enforce_mesh round32 a b)))" and
    "bz' = z (omega (snd (enforce_mesh round32 a b)))" and
    "ax' = x (omega (fst (enforce_mesh round32 a b)))" and
    "bx' = x (omega (snd (enforce_mesh round32 a b)))"
  note k = kernel32_components [of a b, folded ax_def ay_def az_def bx_def by_def bz_def,
      folded vy_def vz_def, folded ay'_def by'_def az'_def bz'_def ax'_def bx'_def]
  have y1: "\<bar>ay' + by'\<bar> \<le> 8346665 / 8388608 * P + 222 * u"
    and y2: "\<bar>ay' - by'\<bar> \<le> 8346665 / 8388608 * A + 1 / 10 * Q + 222 * u"
    unfolding k P_def A_def Q_def
    by (rule decay_pair [OF update_step(1) [OF vy u V0 m(9)] update_step(2) [OF vy u V0 m(10)]]; simp)+
  have z1: "\<bar>az' + bz'\<bar> \<le> 8346665 / 8388608 * Q + 222 * u"
    and z2: "\<bar>az' - bz'\<bar> \<le> 8346665 / 8388608 * B + 1 / 10 * \<bar>- (ay + by)\<bar> + 222 * u"
    unfolding k Q_def B_def
    by (rule decay_pair [OF update_step(1) [OF vz u V0 m(11)] update_step(2) [OF vz u V0 m(12)]]; simp)+
  have z2': "\<bar>az' - bz'\<bar> \<le> 8346665 / 8388608 * B + 1 / 10 * P + 222 * u"
    using z2 unfolding P_def by argo
  have x1: "\<bar>ax'\<bar> \<le> 8346665 / 8388608 * X + u" unfolding k X_def
    by (rule decay_x [OF u V0 m(5)])
  have x2: "\<bar>bx'\<bar> \<le> 8346665 / 8388608 * Y + u" unfolding k Y_def
    by (rule decay_x [OF u V0 m(6)])
  have "lyap (enforce_mesh round32 a b)
      = \<bar>ay' - by'\<bar> + \<bar>az' - bz'\<bar> + 40 * (\<bar>ay' + by'\<bar> + \<bar>az' + bz'\<bar>) + \<bar>ax'\<bar> + \<bar>bx'\<bar>"
    by (simp add: lyap_def Let_def ay'_def by'_def az'_def bz'_def ax'_def bx'_def)
  also have "\<dots> \<le> 8346665 / 8388608 * V + 1 / 10 * (P + Q) + 18206 * u"
  proof -
    define A' B' P' Q' X' Y' where "A' = \<bar>ay' - by'\<bar>" and "B' = \<bar>az' - bz'\<bar>"
      and "P' = \<bar>ay' + by'\<bar>" and "Q' = \<bar>az' + bz'\<bar>" and "X' = \<bar>ax'\<bar>" and "Y' = \<bar>bx'\<bar>"
    have "A' + B' + 40 * (P' + Q') + X' + Y'
        \<le> 8346665 / 8388608 * (A + B + 40 * (P + Q) + X + Y) + 1 / 10 * (P + Q) + 18206 * u"
      using y1 y2 z1 z2' x1 x2
      unfolding A'_def [symmetric] B'_def [symmetric] P'_def [symmetric] Q'_def [symmetric]
        X'_def [symmetric] Y'_def [symmetric]
      by argo
    then show ?thesis
      by (simp only: A'_def B'_def P'_def Q'_def X'_def Y'_def V_def)
  qed
  also have "\<dots> \<le> 4993 / 5000 * V + 18206 * eta32"
    using nn eta32_pos unfolding u_def eps32_num V_def by argo
  finally show ?thesis by (simp add: V)
qed


subsection \<open>Many launches\<close>

lemma lyap_iter:
  "lyap (mesh_iter round32 n p) \<le> (4993 / 5000) ^ n * lyap p + 13004286 * eta32"
proof (induction n)
  case 0
  show ?case using eta32_pos by (simp add: mesh_iter_def)
next
  case (Suc n)
  define r where "r = mesh_iter round32 n p"
  define g where "g = (4993 / 5000 :: real) ^ n * lyap p"
  have "lyap (mesh_iter round32 (Suc n) p) = lyap (enforce_mesh round32 (fst r) (snd r))"
    by (simp add: mesh_iter_def r_def)
  also have "\<dots> \<le> 4993 / 5000 * lyap (fst r, snd r) + 18206 * eta32" by (rule lyap_step)
  also have "\<dots> \<le> 4993 / 5000 * (g + 13004286 * eta32) + 18206 * eta32"
    using Suc by (simp add: r_def g_def)
  also have "\<dots> \<le> 4993 / 5000 * g + 13004286 * eta32"
    using eta32_pos by argo
  also have "4993 / 5000 * g = (4993 / 5000) ^ Suc n * lyap p"
    by (simp only: g_def power_Suc mult.assoc)
  finally show ?case .
qed

lemma half_life: "(4993 / 5000 :: real) ^ 714 \<le> 1 / 2"
proof -
  define Z :: real where "Z = (5000 / 4993) ^ 714"
  define Y :: real where "Y = (4993 / 5000) ^ 714"
  have "1 + real 714 * (7 / 4993) \<le> (1 + 7 / 4993 :: real) ^ 714"
    by (rule Bernoulli_inequality) simp
  moreover have "(1 + 7 / 4993 :: real) = 5000 / 4993" by simp
  moreover have "(2::real) \<le> 1 + real 714 * (7 / 4993)" by simp
  ultimately have Z: "2 \<le> Z" unfolding Z_def by (simp only:)
  have "Y * Z = ((4993 / 5000) * (5000 / 4993)) ^ 714"
    unfolding Y_def Z_def by (simp only: power_mult_distrib)
  also have "(4993 / 5000 :: real) * (5000 / 4993) = 1" by simp
  finally have YZ: "Y * Z = 1" by (simp only: power_one)
  have Y0: "0 \<le> Y" unfolding Y_def by (rule zero_le_power) simp
  have "Y * 2 \<le> Y * Z" using Z Y0 by (rule mult_left_mono)
  with YZ have "Y \<le> 1 / 2" by simp
  then show ?thesis unfolding Y_def .
qed

lemma decay_power: "(4993 / 5000 :: real) ^ (714 * m) \<le> 1 / 2 ^ m"
proof -
  define Y :: real where "Y = (4993 / 5000) ^ 714"
  have Y0: "0 \<le> Y" unfolding Y_def by (rule zero_le_power) simp
  have Y1: "Y \<le> 1 / 2" unfolding Y_def by (rule half_life)
  have "(4993 / 5000 :: real) ^ (714 * m) = Y ^ m" unfolding Y_def by (simp only: power_mult)
  also have "\<dots> \<le> (1 / 2) ^ m" using Y1 Y0 by (rule power_mono)
  also have "\<dots> = 1 / 2 ^ m" by (simp add: power_divide)
  finally show ?thesis .
qed


subsection \<open>The angular velocities of the program\<close>

lemma d_approach:
  "n \<le> 100 \<Longrightarrow> d1 (frames round32 n (init round32)) = d1 (init round32) \<and>
     d2 (frames round32 n (init round32)) = d2 (init round32)"
proof (induction n)
  case 0
  show ?case by (simp add: frames_0)
next
  case (Suc n)
  then have "phase_of round32 (frames round32 n (init round32)) = APPROACHING"
    by (simp add: approach32_phase)
  from controller_approaching [OF this] Suc show ?case
    by (simp add: frames_Suc frame_fields)
qed

lemma d_meshed:
  "(d1 (frames round32 (100 + k) (init round32)), d2 (frames round32 (100 + k) (init round32)))
     = mesh_iter round32 k (d1 (init round32), d2 (init round32))"
proof (induction k)
  case 0
  show ?case using d_approach [of 100] by (simp add: mesh_iter_def)
next
  case (Suc k)
  define s where "s = frames round32 (100 + k) (init round32)"
  define p where "p = mesh_iter round32 k (d1 (init round32), d2 (init round32))"
  from Suc have "p = (d1 s, d2 s)" by (simp add: s_def p_def)
  then have ih: "d1 s = fst p" "d2 s = snd p" by simp_all
  have "phase_of round32 s = MESHED" by (simp add: s_def approach32_phase)
  from controller_meshed [OF this]
  have "d1 (frame round32 s) = fst (enforce_mesh round32 (fst p) (snd p))"
    "d2 (frame round32 s) = snd (enforce_mesh round32 (fst p) (snd p))"
    by (simp_all add: frame_fields ih)
  moreover have "frames round32 (100 + Suc k) (init round32) = frame round32 s"
    by (simp only: add_Suc_right frames_Suc s_def)
  moreover have "mesh_iter round32 (Suc k) (d1 (init round32), d2 (init round32))
      = enforce_mesh round32 (fst p) (snd p)"
    by (simp add: mesh_iter_def p_def)
  ultimately show ?case by simp
qed

lemma lyap_init: "lyap (d1 (init round32), d2 (init round32)) \<le> 128"
  by (simp add: lyap_def init32_d Let_def)

lemma lyap_bounds:
  "\<bar>x (omega (fst p))\<bar> \<le> lyap p" "\<bar>y (omega (fst p))\<bar> \<le> lyap p" "\<bar>z (omega (fst p))\<bar> \<le> lyap p"
  "\<bar>x (omega (snd p))\<bar> \<le> lyap p" "\<bar>y (omega (snd p))\<bar> \<le> lyap p" "\<bar>z (omega (snd p))\<bar> \<le> lyap p"
  unfolding lyap_def Let_def by argo+

lemma lyap_late:
  "lyap (d1 (frames round32 (100 + 714 * 108) (init round32)),
         d2 (frames round32 (100 + 714 * 108) (init round32))) \<le> 1 / 2 ^ 100"
proof -
  define L0 where "L0 = lyap (d1 (init round32), d2 (init round32))"
  define g :: real where "g = (4993 / 5000) ^ (714 * 108)"
  have g0: "0 \<le> g" unfolding g_def by (rule zero_le_power) simp
  have g1: "g \<le> 1 / 2 ^ 108" unfolding g_def by (rule decay_power)
  note g = g0 g1
  have L0: "0 \<le> L0" "L0 \<le> 128" using lyap_init by (simp_all add: L0_def lyap_def Let_def)
  have "lyap (mesh_iter round32 (714 * 108) (d1 (init round32), d2 (init round32)))
      \<le> g * L0 + 13004286 * eta32"
    unfolding g_def L0_def by (rule lyap_iter)
  moreover have "g * L0 \<le> 1 / 2 ^ 108 * 128" using g L0 by (intro mult_mono) simp_all
  moreover have "1 / 2 ^ 108 * 128 + 13004286 * eta32 \<le> (1 / 2 ^ 100 :: real)"
    by (simp add: eta32_def)
  ultimately have "lyap (mesh_iter round32 (714 * 108) (d1 (init round32), d2 (init round32)))
      \<le> 1 / 2 ^ 100" by linarith
  then show ?thesis by (simp only: d_meshed)
qed


subsection \<open>Normalised quaternions are bounded\<close>

lemma eta32_num: "eta32 = 1 / 1427247692705959881058285969449495136382746624"
  by (simp add: eta32_def)

lemma R_lower:
  assumes "0 \<le> v"
  shows "99 / 100 * v - eta32 \<le> round32 v"
  using round32_error [of v] assms unfolding eps32_num by argo

lemma R_upper: "\<bar>round32 v\<bar> \<le> 2 * \<bar>v\<bar> + eta32"
  using round32_error [of v] unfolding eps32_num by argo

lemma sum_sq_lower:
  fixes w2 x2 y2 z2 :: real
  assumes nn: "0 \<le> w2" "0 \<le> x2" "0 \<le> y2" "0 \<le> z2"
  defines "S \<equiv> round32 (round32 (round32 (round32 w2 + round32 x2) + round32 y2) + round32 z2)"
  shows "0 \<le> S" "w2 / 2 - 4 * eta32 \<le> S" "x2 / 2 - 4 * eta32 \<le> S"
    "y2 / 2 - 4 * eta32 \<le> S" "z2 / 2 - 4 * eta32 \<le> S"
proof -
  define sw sx sy sz where "sw = round32 w2" and "sx = round32 x2" and "sy = round32 y2" and "sz = round32 z2"
  define t1 where "t1 = round32 (sw + sx)"
  define t2 where "t2 = round32 (t1 + sy)"
  have S: "S = round32 (t2 + sz)" by (simp add: S_def t2_def t1_def sw_def sx_def sy_def sz_def)
  have s0: "0 \<le> sw" "0 \<le> sx" "0 \<le> sy" "0 \<le> sz"
    using nn by (simp_all add: sw_def sx_def sy_def sz_def round32_nonneg)
  have t10: "0 \<le> t1" using s0 by (simp add: t1_def round32_nonneg)
  have t20: "0 \<le> t2" using s0 t10 by (simp add: t2_def round32_nonneg)
  show "0 \<le> S" using s0 t20 by (simp add: S round32_nonneg)
  have l: "99 / 100 * w2 - eta32 \<le> sw" "99 / 100 * x2 - eta32 \<le> sx"
    "99 / 100 * y2 - eta32 \<le> sy" "99 / 100 * z2 - eta32 \<le> sz"
    unfolding sw_def sx_def sy_def sz_def by (rule R_lower, rule nn)+
  have l1: "99 / 100 * (sw + sx) - eta32 \<le> t1" unfolding t1_def using s0 by (intro R_lower) simp
  have l2: "99 / 100 * (t1 + sy) - eta32 \<le> t2" unfolding t2_def using s0 t10 by (intro R_lower) simp
  have l3: "99 / 100 * (t2 + sz) - eta32 \<le> S" unfolding S using s0 t20 by (intro R_lower) simp
  show "w2 / 2 - 4 * eta32 \<le> S" using l l1 l2 l3 s0 t10 t20 nn eta32_pos by argo
  show "x2 / 2 - 4 * eta32 \<le> S" using l l1 l2 l3 s0 t10 t20 nn eta32_pos by argo
  show "y2 / 2 - 4 * eta32 \<le> S" using l l1 l2 l3 s0 t10 t20 nn eta32_pos by argo
  show "z2 / 2 - 4 * eta32 \<le> S" using l l1 l2 l3 s0 t10 t20 nn eta32_pos by argo
qed

lemma sqrt_eta: "sqrt (1 / 2 ^ 150) = 1 / 2 ^ 75"
proof -
  have "(1 / 2 ^ 75 :: real)\<^sup>2 = 1 / 2 ^ 150" by (simp add: power_divide)
  then show ?thesis by (metis real_sqrt_abs abs_of_nonneg zero_le_divide_1_iff zero_le_numeral zero_le_power)
qed


lemma quat_len32:
  "quat_len round32 c = round32 (sqrt (round32 (round32 (round32
      (round32 (qw c * qw c) + round32 (qx c * qx c)) + round32 (qy c * qy c)) + round32 (qz c * qz c))))"
  by (simp add: quat_len_def fsqrt_def fadd_def fmul_def)

lemma quat_norm_bounded:
  assumes "quat_norm round32 c = Some r"
  shows "\<bar>qw r\<bar> \<le> 17 \<and> \<bar>qx r\<bar> \<le> 17 \<and> \<bar>qy r\<bar> \<le> 17 \<and> \<bar>qz r\<bar> \<le> 17"
proof -
  define S where "S = round32 (round32 (round32
      (round32 (qw c * qw c) + round32 (qx c * qx c)) + round32 (qy c * qy c)) + round32 (qz c * qz c))"
  define n where "n = round32 (sqrt S)"
  have n: "quat_len round32 c = n" by (simp add: quat_len32 n_def S_def)
  from assms have n0: "n \<noteq> 0" by (auto simp add: quat_norm_def n Let_def split: if_splits)
  from assms n0 have r: "r = \<lparr>qw = round32 (qw c / n), qx = round32 (qx c / n),
      qy = round32 (qy c / n), qz = round32 (qz c / n)\<rparr>"
    by (simp add: quat_norm_def n Let_def fdiv_def)
  note L = sum_sq_lower [of "qw c * qw c" "qx c * qx c" "qy c * qy c" "qz c * qz c", folded S_def]
  have S0: "0 \<le> S" by (rule L(1)) simp_all
  have Sn: "S \<noteq> 0" using n0 by (auto simp add: n_def round32_0)
  have "1 / 2 ^ 149 \<le> \<bar>S\<bar>" using Sn unfolding S_def by (rule round32_least)
  then have S1: "1 / 2 ^ 149 \<le> S" using S0 by simp
  have eS: "eta32 \<le> S" using S1 by (simp add: eta32_def) 
  have "sqrt (1 / 2 ^ 150) \<le> sqrt S" using S1 by (intro real_sqrt_le_mono) simp
  then have rt: "1 / 2 ^ 75 \<le> sqrt S" by (simp only: sqrt_eta)
  define t :: real where "t = 1 / 2 ^ 75"
  have t: "0 < t" "eta32 \<le> 1 / 4 * t" "t \<le> sqrt S"
    using rt by (simp_all add: t_def eta32_def)
  have "99 / 100 * sqrt S - eta32 \<le> n" unfolding n_def by (rule R_lower) (simp add: S0)
  then have n1: "sqrt S / 2 \<le> n" using t by argo
  have np: "0 < n" using n1 t by argo
  have comp: "\<bar>round32 (v / n)\<bar> \<le> 17" if "v * v / 2 - 4 * eta32 \<le> S" for v
  proof -
    have "v * v \<le> 16 * S" using that eS S0 by linarith
    then have "sqrt (v * v) \<le> sqrt (16 * S)" by (rule real_sqrt_le_mono)
    then have "\<bar>v\<bar> \<le> 4 * sqrt S" by (simp add: real_sqrt_mult)
    then have "\<bar>v\<bar> \<le> 8 * n" using n1 by linarith
    then have "\<bar>v\<bar> / n \<le> 8" using np by (simp add: field_simps)
    then have "\<bar>v / n\<bar> \<le> 8" using np by simp
    moreover have "eta32 \<le> 1" by (simp add: eta32_def)
    ultimately show ?thesis using R_upper [of "v / n"] by linarith
  qed
  have "\<bar>round32 (qw c / n)\<bar> \<le> 17" by (rule comp, rule L(2)) simp_all
  moreover have "\<bar>round32 (qx c / n)\<bar> \<le> 17" by (rule comp, rule L(3)) simp_all
  moreover have "\<bar>round32 (qy c / n)\<bar> \<le> 17" by (rule comp, rule L(4)) simp_all
  moreover have "\<bar>round32 (qz c / n)\<bar> \<le> 17" by (rule comp, rule L(5)) simp_all
  ultimately show ?thesis by (simp add: r)
qed

subsection \<open>Integration with velocities that have decayed\<close>

lemma prod_small:
  assumes "\<bar>a\<bar> \<le> 17" "\<bar>b\<bar> \<le> 1 / 2 ^ 98"
  shows "\<bar>round32 (a * b)\<bar> \<le> 1 / 2 ^ 91"
proof -
  have "\<bar>a * b\<bar> = \<bar>a\<bar> * \<bar>b\<bar>" by (simp add: abs_mult)
  also have "\<dots> \<le> 17 * (1 / 2 ^ 98)" using assms by (intro mult_mono) simp_all
  finally have "\<bar>a * b\<bar> \<le> 17 / 2 ^ 98" by simp
  moreover have "2 * (17 / 2 ^ 98) + eta32 \<le> (1 / 2 ^ 91 :: real)" by (simp add: eta32_def)
  ultimately show ?thesis using R_upper [of "a * b"] by linarith
qed

lemma sum_small:
  assumes "\<bar>a\<bar> \<le> A" "\<bar>b\<bar> \<le> A" "eta32 \<le> A"
  shows "\<bar>round32 (a + b)\<bar> \<le> 8 * A" "\<bar>round32 (a - b)\<bar> \<le> 8 * A"
proof -
  have "\<bar>a + b\<bar> \<le> 2 * A" using assms by linarith
  then show "\<bar>round32 (a + b)\<bar> \<le> 8 * A"
    using R_upper [of "a + b"] assms(3) by argo
  have "\<bar>a - b\<bar> \<le> 2 * A" using assms by linarith
  then show "\<bar>round32 (a - b)\<bar> \<le> 8 * A"
    using R_upper [of "a - b"] assms(3) by argo
qed

lemma square_tiny:
  assumes "\<bar>v\<bar> \<le> 1 / 2 ^ 82"
  shows "round32 (v * v) = 0"
proof -
  have "\<bar>v * v\<bar> = \<bar>v\<bar> * \<bar>v\<bar>" by (simp add: abs_mult)
  also have "\<dots> \<le> 1 / 2 ^ 82 * (1 / 2 ^ 82)" using assms by (intro mult_mono) simp_all
  finally have "\<bar>v * v\<bar> < 1 / 2 ^ 150" by simp
  then show ?thesis by (rule round32_tiny)
qed


lemma small3:
  assumes "\<bar>p1\<bar> \<le> P" "\<bar>p2\<bar> \<le> P" "\<bar>p3\<bar> \<le> P" "\<bar>p4\<bar> \<le> P" "eta32 \<le> P"
  shows "\<bar>round32 (round32 (round32 (p1 - p2) - p3) - p4)\<bar> \<le> 512 * P"
    and "\<bar>round32 (round32 (round32 (p1 + p2) + p3) - p4)\<bar> \<le> 512 * P"
    and "\<bar>round32 (round32 (round32 (p1 - p2) + p3) + p4)\<bar> \<le> 512 * P"
    and "\<bar>round32 (round32 (round32 (p1 + p2) - p3) + p4)\<bar> \<le> 512 * P"
proof -
  have P0: "0 \<le> P" using assms(1) by linarith
  have e8: "eta32 \<le> 8 * P" "eta32 \<le> 8 * (8 * P)" using assms(5) P0 by linarith+
  have w: "\<bar>p3\<bar> \<le> 8 * P" "\<bar>p4\<bar> \<le> 8 * (8 * P)" using assms(3,4) P0 by linarith+
  note a = sum_small [OF assms(1) assms(2) assms(5)]
  note b1 = sum_small [OF a(1) w(1) e8(1)] and b2 = sum_small [OF a(2) w(1) e8(1)]
  have "\<bar>round32 (round32 (round32 (p1 - p2) - p3) - p4)\<bar> \<le> 8 * (8 * (8 * P))"
    by (rule sum_small(2) [OF b2(2) w(2) e8(2)])
  then show "\<bar>round32 (round32 (round32 (p1 - p2) - p3) - p4)\<bar> \<le> 512 * P" by simp
  have "\<bar>round32 (round32 (round32 (p1 + p2) + p3) - p4)\<bar> \<le> 8 * (8 * (8 * P))"
    by (rule sum_small(2) [OF b1(1) w(2) e8(2)])
  then show "\<bar>round32 (round32 (round32 (p1 + p2) + p3) - p4)\<bar> \<le> 512 * P" by simp
  have "\<bar>round32 (round32 (round32 (p1 - p2) + p3) + p4)\<bar> \<le> 8 * (8 * (8 * P))"
    by (rule sum_small(1) [OF b2(1) w(2) e8(2)])
  then show "\<bar>round32 (round32 (round32 (p1 - p2) + p3) + p4)\<bar> \<le> 512 * P" by simp
  have "\<bar>round32 (round32 (round32 (p1 + p2) - p3) + p4)\<bar> \<le> 8 * (8 * (8 * P))"
    by (rule sum_small(1) [OF b1(2) w(2) e8(2)])
  then show "\<bar>round32 (round32 (round32 (p1 + p2) - p3) + p4)\<bar> \<le> 512 * P" by simp
qed

lemma dt32: "dt round32 = 5368709 / 2 ^ 29"
  unfolding dt_def
  using round32_eval [of "- 7" "1 / 100" 10737418]
  by (simp add: power_int_minus)

lemma dq_small:
  assumes "\<bar>v\<bar> \<le> 1 / 2 ^ 100"
  shows "\<bar>round32 (v * (5368709 / 2 ^ 29))\<bar> \<le> 1 / 2 ^ 98"
proof -
  have "\<bar>v * (5368709 / 2 ^ 29)\<bar> = \<bar>v\<bar> * (5368709 / 2 ^ 29)" by (simp add: abs_mult)
  also have "\<dots> \<le> 1 / 2 ^ 100 * 1" using assms by (intro mult_mono) simp_all
  finally have "\<bar>v * (5368709 / 2 ^ 29)\<bar> \<le> 1 / 2 ^ 100" by simp
  moreover have "2 * (1 / 2 ^ 100) + eta32 \<le> (1 / 2 ^ 98 :: real)" by (simp add: eta32_def)
  ultimately show ?thesis using R_upper [of "v * (5368709 / 2 ^ 29)"] by linarith
qed

lemma integrate_tiny:
  assumes q: "\<bar>qw q\<bar> \<le> 17 \<and> \<bar>qx q\<bar> \<le> 17 \<and> \<bar>qy q\<bar> \<le> 17 \<and> \<bar>qz q\<bar> \<le> 17"
    and om: "\<bar>x om\<bar> \<le> 1 / 2 ^ 100" "\<bar>y om\<bar> \<le> 1 / 2 ^ 100" "\<bar>z om\<bar> \<le> 1 / 2 ^ 100"
  shows "integrate_quat round32 q om (dt round32) = None"
proof -
  define dx dy dz where "dx = round32 (x om * (5368709 / 2 ^ 29))"
    and "dy = round32 (y om * (5368709 / 2 ^ 29))" and "dz = round32 (z om * (5368709 / 2 ^ 29))"
  define c where "c = quat_mul round32 q \<lparr>qw = 0, qx = dx, qy = dy, qz = dz\<rparr>"
  have i: "integrate_quat round32 q om (dt round32) = quat_norm round32 c"
    by (simp add: integrate_quat_def dt32 c_def dx_def dy_def dz_def fmul_def Let_def)
  have d: "\<bar>dx\<bar> \<le> 1 / 2 ^ 98" "\<bar>dy\<bar> \<le> 1 / 2 ^ 98" "\<bar>dz\<bar> \<le> 1 / 2 ^ 98"
    unfolding dx_def dy_def dz_def by (rule dq_small, rule om)+
  have z: "\<bar>round32 (v * 0)\<bar> \<le> 1 / 2 ^ 91" for v by (simp add: round32_0)
  have e: "eta32 \<le> 1 / 2 ^ 91" by (simp add: eta32_def)
  from q have qb: "\<bar>qw q\<bar> \<le> 17" "\<bar>qx q\<bar> \<le> 17" "\<bar>qy q\<bar> \<le> 17" "\<bar>qz q\<bar> \<le> 17" by simp_all
  have cw: "\<bar>qw c\<bar> \<le> 512 * (1 / 2 ^ 91)"
    unfolding c_def quat_mul_def fadd_def fsub_def fmul_def Quat.simps
    by (rule small3(1) [OF z prod_small prod_small prod_small e]) (rule qb d)+
  have cx: "\<bar>qx c\<bar> \<le> 512 * (1 / 2 ^ 91)"
    unfolding c_def quat_mul_def fadd_def fsub_def fmul_def Quat.simps
    by (rule small3(2) [OF prod_small z prod_small prod_small e]) (rule qb d)+
  have cy: "\<bar>qy c\<bar> \<le> 512 * (1 / 2 ^ 91)"
    unfolding c_def quat_mul_def fadd_def fsub_def fmul_def Quat.simps
    by (rule small3(3) [OF prod_small prod_small z prod_small e]) (rule qb d)+
  have cz: "\<bar>qz c\<bar> \<le> 512 * (1 / 2 ^ 91)"
    unfolding c_def quat_mul_def fadd_def fsub_def fmul_def Quat.simps
    by (rule small3(4) [OF prod_small prod_small prod_small z e]) (rule qb d)+
  have s: "round32 (qw c * qw c) = 0" "round32 (qx c * qx c) = 0"
    "round32 (qy c * qy c) = 0" "round32 (qz c * qz c) = 0"
    using cw cx cy cz by (simp_all add: square_tiny)
  have "quat_len round32 c = 0" by (simp add: quat_len32 s round32_0)
  then show ?thesis by (simp add: i quat_norm_def)
qed


subsection \<open>The integrator against the normalised product\<close>

lemma sqrt_25_16: "sqrt (25 / 16) = 5 / 4"
proof -
  have "sqrt (25 / 16) = sqrt ((5 / 4)\<^sup>2)" by (simp add: power2_eq_square)
  also have "\<dots> = 5 / 4" by simp
  finally show ?thesis .
qed

lemma product32_three_quarters:
  "quat_mul round32 \<lparr>qw = 1, qx = 0, qy = 0, qz = 0\<rparr> \<lparr>qw = 0, qx = 3 / 4, qy = 1, qz = 0\<rparr>
     = \<lparr>qw = 0, qx = 3 / 4, qy = 1, qz = 0\<rparr>"
  by (simp add: quat_mul_def eval32)

lemma quat_len32_three_quarters:
  "quat_len round32 \<lparr>qw = 0, qx = 3 / 4, qy = 1, qz = 0\<rparr> = 5 / 4"
  by (simp add: quat_len_def fsqrt_def sqrt_25_16 eval32)

lemma integrate32_three_quarters:
  "integrate_quat round32 \<lparr>qw = 1, qx = 0, qy = 0, qz = 0\<rparr> \<lparr>x = 3 / 4, y = 1, z = 0\<rparr> 1
     = Some \<lparr>qw = 0, qx = 10066330 / 2 ^ 24, qy = 13421773 / 2 ^ 24, qz = 0\<rparr>"
  by (simp add: integrate_quat_def quat_norm_def product32_three_quarters
      quat_len32_three_quarters fdiv_def eval32)

lemma normalized_three_quarters:
  "normalize_spec (hamilton \<lparr>qw = 1, qx = 0, qy = 0, qz = 0\<rparr>
      (pure_quat \<lparr>x = 3 / 4, y = 1, z = 0\<rparr> 1))
     = Some \<lparr>qw = 0, qx = 3 / 5, qy = 4 / 5, qz = 0\<rparr>"
  by (simp add: normalize_spec_def hamilton_def pure_quat_def vec_part_def dot3_def cross3_def
      euclid_norm_def Let_def power2_eq_square sqrt_25_16)

lemma integrate32_slow_spin:
  "integrate_quat round32 \<lparr>qw = 1, qx = 0, qy = 0, qz = 0\<rparr>
      \<lparr>x = 1 / 2 ^ 100, y = 0, z = 0\<rparr> (dt round32) = None"
  by (rule integrate_tiny) simp_all

lemma normalized_slow_spin:
  "normalize_spec (hamilton \<lparr>qw = 1, qx = 0, qy = 0, qz = 0\<rparr>
      (pure_quat \<lparr>x = 1 / 2 ^ 100, y = 0, z = 0\<rparr> (dt round32)))
     = Some \<lparr>qw = 0, qx = 1, qy = 0, qz = 0\<rparr>"
  by (simp add: normalize_spec_def hamilton_def pure_quat_def vec_part_def dot3_def cross3_def
      euclid_norm_def Let_def dt32)

text \<open>
  Claim C4, as stated, fails in binary32, at two inputs with the identity orientation.

  With \<open>\<omega> = (0.75, 1, 0)\<close> and \<open>dt = 1\<close> every operation before the division is exact: the
  product is \<open>(0, 0.75, 1, 0)\<close>, the sum of the squares is \<open>1.5625\<close> and \<open>n = 1.25\<close>. The
  normalised product is \<open>(0, 3/5, 4/5, 0)\<close>, which no binary32 value represents, and the
  code returns the rounded quotients \<open>10066330 / 2\<^sup>2\<^sup>4\<close> and \<open>13421773 / 2\<^sup>2\<^sup>4\<close>: the result is
  the normalised product up to one rounding of each component, not the normalised product.

  With \<open>\<omega> = (2\<^sup>-\<^sup>1\<^sup>0\<^sup>0, 0, 0)\<close> and \<open>dt = 0.01f\<close> the product is about \<open>(0, 2\<^sup>-\<^sup>1\<^sup>0\<^sup>7, 0, 0)\<close>, its
  squares round to 0, \<open>n = 0\<close>, and the divisions of line 80 are divisions by zero, where
  the normalised product is \<open>(0, 1, 0, 0)\<close>. This second failure is the unguarded division
  of claim C5.
\<close>

theorem integrate_quat_not_normalized_product_binary32:
  "integrate_quat round32 \<lparr>qw = 1, qx = 0, qy = 0, qz = 0\<rparr> \<lparr>x = 3 / 4, y = 1, z = 0\<rparr> 1
     = Some \<lparr>qw = 0, qx = 10066330 / 2 ^ 24, qy = 13421773 / 2 ^ 24, qz = 0\<rparr> \<and>
   normalize_spec (hamilton \<lparr>qw = 1, qx = 0, qy = 0, qz = 0\<rparr>
      (pure_quat \<lparr>x = 3 / 4, y = 1, z = 0\<rparr> 1))
     = Some \<lparr>qw = 0, qx = 3 / 5, qy = 4 / 5, qz = 0\<rparr> \<and>
   integrate_quat round32 \<lparr>qw = 1, qx = 0, qy = 0, qz = 0\<rparr>
      \<lparr>x = 1 / 2 ^ 100, y = 0, z = 0\<rparr> (dt round32) = None \<and>
   normalize_spec (hamilton \<lparr>qw = 1, qx = 0, qy = 0, qz = 0\<rparr>
      (pure_quat \<lparr>x = 1 / 2 ^ 100, y = 0, z = 0\<rparr> (dt round32)))
     = Some \<lparr>qw = 0, qx = 1, qy = 0, qz = 0\<rparr>"
  by (simp only: integrate32_three_quarters normalized_three_quarters integrate32_slow_spin
      normalized_slow_spin simp_thms)


subsection \<open>The loss of both orientations\<close>

lemma frame_q:
  "q1 (frame rnd s) = Option.bind (q1 s) (\<lambda>q. integrate_quat rnd q (omega (d1 (frame rnd s))) (dt rnd))"
  "q2 (frame rnd s) = Option.bind (q2 s) (\<lambda>q. integrate_quat rnd q (omega (d2 (frame rnd s))) (dt rnd))"
  by (simp_all add: frame_def integrate_def copy_out_def controller_def Let_def)

lemma integrate_quat_bounded:
  assumes "integrate_quat round32 q om h = Some r"
  shows "\<bar>qw r\<bar> \<le> 17 \<and> \<bar>qx r\<bar> \<le> 17 \<and> \<bar>qy r\<bar> \<le> 17 \<and> \<bar>qz r\<bar> \<le> 17"
proof -
  from assms have "quat_norm round32 (quat_mul round32 q
      \<lparr>qw = 0, qx = fmul round32 (x om) h, qy = fmul round32 (y om) h, qz = fmul round32 (z om) h\<rparr>)
      = Some r"
    by (simp add: integrate_quat_def Let_def)
  then show ?thesis by (rule quat_norm_bounded)
qed

lemma frame_q_bounded:
  "q1 (frame round32 s) = Some r \<Longrightarrow> \<bar>qw r\<bar> \<le> 17 \<and> \<bar>qx r\<bar> \<le> 17 \<and> \<bar>qy r\<bar> \<le> 17 \<and> \<bar>qz r\<bar> \<le> 17"
  "q2 (frame round32 s) = Some r \<Longrightarrow> \<bar>qw r\<bar> \<le> 17 \<and> \<bar>qx r\<bar> \<le> 17 \<and> \<bar>qy r\<bar> \<le> 17 \<and> \<bar>qz r\<bar> \<le> 17"
  by (auto simp add: frame_q bind_eq_Some_conv dest: integrate_quat_bounded)

lemma underflow:
  fixes s :: state
  assumes "lyap (d1 (frame round32 (frame round32 s)), d2 (frame round32 (frame round32 s))) \<le> 1 / 2 ^ 100"
  shows "q1 (frame round32 (frame round32 s)) = None" "q2 (frame round32 (frame round32 s)) = None"
proof -
  define t where "t = frame round32 s"
  define p where "p = (d1 (frame round32 t), d2 (frame round32 t))"
  have L: "lyap p \<le> 1 / 2 ^ 100" using assms by (simp add: p_def t_def)
  have a: "\<bar>x (omega (d1 (frame round32 t)))\<bar> \<le> 1 / 2 ^ 100"
    "\<bar>y (omega (d1 (frame round32 t)))\<bar> \<le> 1 / 2 ^ 100"
    "\<bar>z (omega (d1 (frame round32 t)))\<bar> \<le> 1 / 2 ^ 100"
    using lyap_bounds(1-3) [of p] L by (simp_all add: p_def)
  have b: "\<bar>x (omega (d2 (frame round32 t)))\<bar> \<le> 1 / 2 ^ 100"
    "\<bar>y (omega (d2 (frame round32 t)))\<bar> \<le> 1 / 2 ^ 100"
    "\<bar>z (omega (d2 (frame round32 t)))\<bar> \<le> 1 / 2 ^ 100"
    using lyap_bounds(4-6) [of p] L by (simp_all add: p_def)
  show "q1 (frame round32 (frame round32 s)) = None"
  proof (cases "q1 t")
    case None
    then show ?thesis by (simp add: frame_q(1) [of round32 t] t_def [symmetric])
  next
    case (Some r)
    then have "\<bar>qw r\<bar> \<le> 17 \<and> \<bar>qx r\<bar> \<le> 17 \<and> \<bar>qy r\<bar> \<le> 17 \<and> \<bar>qz r\<bar> \<le> 17"
      unfolding t_def by (rule frame_q_bounded(1))
    from integrate_tiny [OF this a] Some show ?thesis
      by (simp add: frame_q(1) [of round32 t] t_def [symmetric])
  qed
  show "q2 (frame round32 (frame round32 s)) = None"
  proof (cases "q2 t")
    case None
    then show ?thesis by (simp add: frame_q(2) [of round32 t] t_def [symmetric])
  next
    case (Some r)
    then have "\<bar>qw r\<bar> \<le> 17 \<and> \<bar>qx r\<bar> \<le> 17 \<and> \<bar>qy r\<bar> \<le> 17 \<and> \<bar>qz r\<bar> \<le> 17"
      unfolding t_def by (rule frame_q_bounded(2))
    from integrate_tiny [OF this b] Some show ?thesis
      by (simp add: frame_q(2) [of round32 t] t_def [symmetric])
  qed
qed

lemma frames_two: "frames rnd (Suc (Suc n)) s = frame rnd (frame rnd (frames rnd n s))"
  by (simp add: frames_Suc)

lemma orientation_lost:
  "q1 (frames round32 77212 (init round32)) = None" "q2 (frames round32 77212 (init round32)) = None"
proof -
  have n: "(77212::nat) = Suc (Suc 77210)" "(77212::nat) = 100 + 714 * 108" by simp_all
  have "lyap (d1 (frames round32 77212 (init round32)), d2 (frames round32 77212 (init round32)))
      \<le> 1 / 2 ^ 100"
    unfolding n(2) by (rule lyap_late)
  then have "lyap (d1 (frame round32 (frame round32 (frames round32 77210 (init round32)))),
      d2 (frame round32 (frame round32 (frames round32 77210 (init round32))))) \<le> 1 / 2 ^ 100"
    by (simp only: n(1) frames_two)
  from underflow [OF this]
  show "q1 (frames round32 77212 (init round32)) = None" "q2 (frames round32 77212 (init round32)) = None"
    by (simp_all only: n(1) frames_two)
qed

lemma lost_forever:
  "q1 s = None \<Longrightarrow> q1 (frames rnd n s) = None"
  "q2 s = None \<Longrightarrow> q2 (frames rnd n s) = None"
  by (induction n) (simp_all add: frames_0 frames_Suc frame_q)


text \<open>
  Claim C5 fails on the program as it runs, in binary32: after 77212 frames from the initial
  state both orientations are \<open>None\<close>, that is, for each body some normalisation on the
  way has computed the norm 0 and divided by it. (The bound is not tight: the angular
  velocities lose a factor 0.995 for each frame in contact, and the squares underflow
  once they are below about \<open>10\<^sup>-\<^sup>2\<^sup>1\<close>.)
\<close>

theorem normalisation_divides_by_zero_binary32:
  "q1 (frames round32 77212 (init round32)) = None \<and>
   q2 (frames round32 77212 (init round32)) = None"
  by (simp only: orientation_lost)

text \<open>
  Claim C9 fails for the same reason: from frame 77212 on, neither body has an orientation
  whose norm is within \<open>10\<^sup>-\<^sup>5\<close> of 1, since neither has an orientation with finite
  components at all.
\<close>

theorem orientation_norm_lost_binary32:
  "(\<nexists>r. q1 (frames round32 (k + 77212) (init round32)) = Some r \<and> \<bar>euclid_norm r - 1\<bar> \<le> 1 / 10 ^ 5) \<and>
   (\<nexists>r. q2 (frames round32 (k + 77212) (init round32)) = Some r \<and> \<bar>euclid_norm r - 1\<bar> \<le> 1 / 10 ^ 5)"
  by (simp add: frames_add lost_forever orientation_lost)

end
